theory Spec2Isabelle
  imports Complex_Main "HOL-Library.List_Lexorder" "HOL-Library.Char_ord" "HOL-Library.Multiset"
begin

section \<open>JavaScript values\<close>

text \<open>
  A request body is what \<^verbatim>\<open>JSON.parse\<close> produces. Numbers are the exact value of the
  decimal literal they were read from (IEEE rounding is not modelled), with the three
  non-finite values of a JavaScript number beside them. An object is the list of its own
  properties in enumeration order; its keys are pairwise distinct. Keys are ordinary data
  properties (the accessor key \<^verbatim>\<open>__proto__\<close> is not modelled). Strings are ASCII.
\<close>

datatype jsnum = Finite rat | NaN | PosInfinity | NegInfinity

datatype json =
    JNull
  | JBool bool
  | JNum jsnum
  | JStr string
  | JArr "json list"
  | JObj "(string \<times> json) list"

text \<open>\<^verbatim>\<open>String.prototype.trim\<close> and \<^verbatim>\<open>toLowerCase\<close> on ASCII strings.\<close>

definition is_space :: "char \<Rightarrow> bool" where
  \<comment> \<open>tab, line feed, vertical tab, form feed, carriage return, space\<close>
  "is_space c = (of_char c \<in> {9, 10, 11, 12, 13, 32 :: nat})"

definition js_trim :: "string \<Rightarrow> string" where
  "js_trim s = rev (dropWhile is_space (rev (dropWhile is_space s)))"

definition is_upper :: "char \<Rightarrow> bool" where
  \<comment> \<open>\<^verbatim>\<open>A\<close> to \<^verbatim>\<open>Z\<close>\<close>
  "is_upper c = (65 \<le> (of_char c :: nat) \<and> (of_char c :: nat) \<le> 90)"

definition to_lower :: "char \<Rightarrow> char" where
  "to_lower c = (if is_upper c then char_of (of_char c + (32::nat)) else c)"

definition toLowerCase :: "string \<Rightarrow> string" where
  "toLowerCase s = map to_lower s"

section \<open>Content hasher (idempotencyHandler.js)\<close>

text \<open>
  The digest and the serialisation are library calls (\<^verbatim>\<open>crypto\<close>, \<^verbatim>\<open>JSON.stringify\<close>).
  They are kept symbolic: \<open>JSON_stringify v\<close> stands for the text of \<open>v\<close> and
  \<open>Sha256_hex t\<close> for the hexadecimal SHA-256 digest of \<open>t\<close>. Equal inputs give equal
  fingerprints; that distinct inputs give distinct fingerprints is the usual idealisation
  of a collision-resistant digest.

  \<^verbatim>\<open>Object.keys(obj).sort()\<close> orders the keys by their code units, which for ASCII keys
  is the lexicographic order of \<open>char list\<close>. The object \<^verbatim>\<open>sorted\<close> is the list of the
  properties in the order of their assignment, which fixes its serialisation.
\<close>

datatype json_text = JSON_stringify json

datatype fingerprint = Sha256_hex json_text

definition skipped_key :: "string \<Rightarrow> bool" where
  "skipped_key key = (key = ''received_at'' \<or> key = ''created_at'' \<or> key = ''id'')"

fun normalizeForHashing :: "json \<Rightarrow> json" where
  "normalizeForHashing JNull = JNull"
| "normalizeForHashing (JArr items) = JArr (map normalizeForHashing items)"
| "normalizeForHashing (JObj kvs) =
     JObj (map (\<lambda>(key, v). (key, normalizeForHashing v))
            (filter (\<lambda>(key, v). \<not> skipped_key key) (sort_key fst kvs)))"
| "normalizeForHashing (JStr s) = JStr (toLowerCase (js_trim s))"
| "normalizeForHashing (JBool b) = JBool b"
| "normalizeForHashing (JNum n) = JNum n"

definition generateEventHash :: "json \<Rightarrow> fingerprint" where
  "generateEventHash rawEvent =
     (let normalized = normalizeForHashing rawEvent;
          content = JSON_stringify normalized
      in Sha256_hex content)"

text \<open>
  The payloads that the hasher is meant to identify, stated without reference to the
  hasher: the least equivalence, closed under arrays and objects, that relates
  \<^item> an object to any reordering of its properties,
  \<^item> a string value to itself with white space added around it,
  \<^item> a string value to itself with the case of some letters changed,
  \<^item> an object to itself with a property named \<^verbatim>\<open>received_at\<close>, \<^verbatim>\<open>created_at\<close> or
    \<^verbatim>\<open>id\<close> added.
\<close>

definition case_variant :: "char \<Rightarrow> char \<Rightarrow> bool" where
  "case_variant c d =
     (c = d \<or> (is_upper c \<and> of_char d = of_char c + (32::nat))
            \<or> (is_upper d \<and> of_char c = of_char d + (32::nat)))"

inductive same_content :: "json \<Rightarrow> json \<Rightarrow> bool" where
  same: "same_content a a"
| swap: "same_content a b \<Longrightarrow> same_content b a"
| chain: "same_content a b \<Longrightarrow> same_content b c \<Longrightarrow> same_content a c"
| key_order:
    "mset kvs = mset kvs' \<Longrightarrow> distinct (map fst kvs) \<Longrightarrow> same_content (JObj kvs) (JObj kvs')"
| white_space:
    "list_all is_space l \<Longrightarrow> list_all is_space r \<Longrightarrow> same_content (JStr s) (JStr (l @ s @ r))"
| letter_case:
    "list_all2 case_variant s t \<Longrightarrow> same_content (JStr s) (JStr t)"
| receipt_key:
    "key \<in> {''received_at'', ''created_at'', ''id''} \<Longrightarrow>
     same_content (JObj (kvs1 @ kvs2)) (JObj (kvs1 @ (key, v) # kvs2))"
| in_array:
    "same_content a b \<Longrightarrow> same_content (JArr (xs @ a # ys)) (JArr (xs @ b # ys))"
| in_object:
    "same_content a b \<Longrightarrow> same_content (JObj (kvs1 @ (key, a) # kvs2)) (JObj (kvs1 @ (key, b) # kvs2))"


section \<open>Normalizer (normalizer.js)\<close>

text \<open>
  Messages are built from template literals. The text of a substituted value that is
  not already a string is kept symbolic: \<open>Subst v\<close> stands for the characters that
  \<^verbatim>\<open>String(v)\<close> yields, \<open>Thrown m\<close> for the message of a run-time error.
\<close>

datatype piece = Lit string | Subst json | Thrown string

type_synonym js_text = "piece list"

definition to_String :: "json \<Rightarrow> js_text" where
  "to_String v = (case v of JStr s \<Rightarrow> [Lit s] | _ \<Rightarrow> [Subst v])"

text \<open>Truthiness of a value, as \<^verbatim>\<open>!v\<close>, \<^verbatim>\<open>a || b\<close> and \<^verbatim>\<open>a && b\<close> test it.\<close>

fun truthy :: "json \<Rightarrow> bool" where
  "truthy JNull = False"
| "truthy (JBool b) = b"
| "truthy (JNum n) = (n \<noteq> NaN \<and> n \<noteq> Finite 0)"
| "truthy (JStr s) = (s \<noteq> [])"
| "truthy (JArr xs) = True"
| "truthy (JObj kvs) = True"

text \<open>
  \<open>property obj name\<close> is \<^verbatim>\<open>obj[name]\<close> for a \<open>name\<close> the normalizer reads (an
  alias or \<^verbatim>\<open>payload\<close>); \<open>None\<close> is \<^verbatim>\<open>undefined\<close>. Arrays, strings, numbers and
  booleans have no property of such a name. Reading a property of \<^verbatim>\<open>null\<close> throws; the
  callers below guard it as the source does.
\<close>

fun property :: "json \<Rightarrow> string \<Rightarrow> json option" where
  "property (JObj kvs) name = map_of kvs name"
| "property _ name = None"

fun decimal :: "nat \<Rightarrow> string" where
  \<comment> \<open>the text of an array index\<close>
  "decimal n = (if n < 10 then [''0123456789'' ! n]
                else decimal (n div 10) @ [''0123456789'' ! (n mod 10)])"

fun Object_keys :: "json \<Rightarrow> string list" where
  "Object_keys (JObj kvs) = map fst kvs"
| "Object_keys (JArr xs) = map decimal [0..<length xs]"
| "Object_keys (JStr s) = map decimal [0..<length s]"
| "Object_keys _ = []"

definition fieldMappings :: "(string \<times> string list) list" where
  "fieldMappings =
    [(''client_id'', [''source'', ''client'', ''client_id'', ''clientId'', ''sender'']),
     (''metric'', [''metric'', ''type'', ''event_type'', ''eventType'', ''name'']),
     (''amount'', [''amount'', ''value'', ''quantity'', ''total'', ''sum'']),
     (''timestamp'', [''timestamp'', ''time'', ''date'', ''created_at'', ''createdAt'', ''event_time''])]"

fun first_present :: "json \<Rightarrow> string list \<Rightarrow> json" where
  "first_present obj [] = JNull"
| "first_present obj (name # names) =
     (if truthy obj
      then (case property obj name of
              Some v \<Rightarrow> if v \<noteq> JNull \<and> v \<noteq> JStr [] then v else first_present obj names
            | None \<Rightarrow> first_present obj names)
      else first_present obj names)"

definition extractField :: "json \<Rightarrow> string \<Rightarrow> json" where
  "extractField obj canonicalName =
     (let possibleNames = (case map_of fieldMappings canonicalName of
                             Some names \<Rightarrow> names | None \<Rightarrow> [canonicalName])
      in first_present obj possibleNames)"

subsection \<open>Numbers\<close>

definition is_digit :: "char \<Rightarrow> bool" where
  "is_digit c = (48 \<le> (of_char c :: nat) \<and> (of_char c :: nat) \<le> 57)"

definition digits_value :: "string \<Rightarrow> nat" where
  "digits_value ds = foldl (\<lambda>acc c. 10 * acc + (of_char c - 48)) 0 ds"

definition scale10 :: "rat \<Rightarrow> int \<Rightarrow> rat" where
  "scale10 m e = (if 0 \<le> e then m * 10 ^ nat e else m / 10 ^ nat (- e))"

text \<open>
  \<^verbatim>\<open>parseFloat\<close>: skip leading white space, then read the longest prefix that is a
  decimal literal (sign, \<^verbatim>\<open>Infinity\<close> or digits with an optional fraction and an
  optional exponent); \<open>NaN\<close> when there is none.
\<close>

definition exponent_part :: "string \<Rightarrow> int" where
  "exponent_part r =
     (case r of
        [] \<Rightarrow> 0
      | e # r1 \<Rightarrow>
          if e = CHR ''e'' \<or> e = CHR ''E'' then
            (case r1 of
               [] \<Rightarrow> 0
             | sg # r2 \<Rightarrow>
                 if sg = CHR ''-'' then
                   (if takeWhile is_digit r2 = [] then 0 else - int (digits_value (takeWhile is_digit r2)))
                 else if sg = CHR ''+'' then int (digits_value (takeWhile is_digit r2))
                 else int (digits_value (takeWhile is_digit r1)))
          else 0)"

definition unsigned_literal :: "string \<Rightarrow> jsnum" where
  "unsigned_literal u =
     (if take 8 u = ''Infinity'' then PosInfinity
      else
        let ip = takeWhile is_digit u;
            r1 = dropWhile is_digit u;
            fp = (case r1 of [] \<Rightarrow> [] | c # r \<Rightarrow> if c = CHR ''.'' then takeWhile is_digit r else []);
            r2 = (case r1 of [] \<Rightarrow> [] | c # r \<Rightarrow> if c = CHR ''.'' then dropWhile is_digit r else r1)
        in if ip = [] \<and> fp = [] then NaN
           else Finite (scale10 (of_nat (digits_value (ip @ fp))) (exponent_part r2 - int (length fp))))"

definition negate :: "jsnum \<Rightarrow> jsnum" where
  "negate n = (case n of Finite r \<Rightarrow> Finite (- r) | NaN \<Rightarrow> NaN
               | PosInfinity \<Rightarrow> NegInfinity | NegInfinity \<Rightarrow> PosInfinity)"

definition parseFloat :: "string \<Rightarrow> jsnum" where
  "parseFloat s =
     (case dropWhile is_space s of
        [] \<Rightarrow> NaN
      | c # r \<Rightarrow>
          if c = CHR ''-'' then negate (unsigned_literal r)
          else if c = CHR ''+'' then unsigned_literal r
          else unsigned_literal (c # r))"

definition parseNumber :: "json \<Rightarrow> jsnum option" where
  "parseNumber v =
     (case v of
        JNum n \<Rightarrow> if n = NaN then None else Some n
      | JStr s \<Rightarrow>
          (let cleaned = js_trim (filter (\<lambda>c. c \<noteq> CHR '','' \<and> c \<noteq> CHR ''$'') s);
               parsed = parseFloat cleaned
           in if parsed = NaN then None else Some parsed)
      | _ \<Rightarrow> None)"


subsection \<open>Dates\<close>

text \<open>
  An instant is a \<^verbatim>\<open>Date\<close> time value: milliseconds since 1970-01-01T00:00:00Z.
  \<open>toISOString\<close> is the method of that name, by the proleptic Gregorian calendar.
\<close>

definition civil_from_days :: "int \<Rightarrow> int \<times> int \<times> int" where
  "civil_from_days z =
     (let z1 = z + 719468;
          era = z1 div 146097;
          doe = z1 - era * 146097;
          yoe = (doe - doe div 1460 + doe div 36524 - doe div 146096) div 365;
          doy = doe - (365 * yoe + yoe div 4 - yoe div 100);
          mp = (5 * doy + 2) div 153;
          d = doy - (153 * mp + 2) div 5 + 1;
          m = (if mp < 10 then mp + 3 else mp - 9);
          y = yoe + era * 400
      in (if m \<le> 2 then y + 1 else y, m, d))"

definition days_from_civil :: "int \<Rightarrow> int \<Rightarrow> int \<Rightarrow> int" where
  "days_from_civil y m d =
     (let y1 = (if m \<le> 2 then y - 1 else y);
          era = y1 div 400;
          yoe = y1 - era * 400;
          doy = (153 * (if m > 2 then m - 3 else m + 9) + 2) div 5 + d - 1;
          doe = yoe * 365 + yoe div 4 - yoe div 100 + doy
      in era * 146097 + doe - 719468)"

definition days_in_month :: "int \<Rightarrow> int \<Rightarrow> int" where
  "days_in_month y m =
     (if m = 2 then (if y mod 4 = 0 \<and> (y mod 100 \<noteq> 0 \<or> y mod 400 = 0) then 29 else 28)
      else if m = 4 \<or> m = 6 \<or> m = 9 \<or> m = 11 then 30 else 31)"

definition digit :: "int \<Rightarrow> char" where
  \<comment> \<open>the last decimal digit of a non-negative number\<close>
  "digit n = ''0123456789'' ! nat (n mod 10)"

definition pad2 :: "int \<Rightarrow> string" where
  "pad2 n = [digit (n div 10), digit n]"

definition pad3 :: "int \<Rightarrow> string" where
  "pad3 n = digit (n div 100) # pad2 n"

definition pad4 :: "int \<Rightarrow> string" where
  "pad4 n = digit (n div 1000) # pad3 n"

definition pad6 :: "int \<Rightarrow> string" where
  "pad6 n = digit (n div 100000) # digit (n div 10000) # pad4 n"

definition toISOString :: "int \<Rightarrow> string" where
  "toISOString t =
     (let ms = t mod 86400000;
          (y, m, d) = civil_from_days (t div 86400000);
          year = (if 0 \<le> y \<and> y \<le> 9999 then pad4 y
                  else (if y < 0 then ''-'' else ''+'') @ pad6 \<bar>y\<bar>)
      in year @ ''-'' @ pad2 m @ ''-'' @ pad2 d @ ''T'' @ pad2 (ms div 3600000) @ '':''
         @ pad2 (ms div 60000 mod 60) @ '':'' @ pad2 (ms div 1000 mod 60) @ ''.''
         @ pad3 (ms mod 1000) @ ''Z'')"

text \<open>
  \<^verbatim>\<open>new Date(value)\<close>. The one argument whose result the model computes is the text
  the normalizer itself builds, \<^verbatim>\<open>YYYY-MM-DDT00:00:00Z\<close> for a day of the calendar.
  On every other argument the result is the host's: \<open>host value\<close> is the time value,
  \<open>None\<close> for an invalid date. (ECMAScript leaves the reading of texts outside its own
  date-time format to the implementation.)
\<close>

definition utc_midnight :: "string \<Rightarrow> int option" where
  "utc_midnight s =
     (if length s = 20 \<and> list_all is_digit (take 4 s) \<and> s ! 4 = CHR ''-''
         \<and> list_all is_digit (take 2 (drop 5 s)) \<and> s ! 7 = CHR ''-''
         \<and> list_all is_digit (take 2 (drop 8 s)) \<and> drop 10 s = ''T00:00:00Z''
      then
        let y = int (digits_value (take 4 s));
            m = int (digits_value (take 2 (drop 5 s)));
            d = int (digits_value (take 2 (drop 8 s)))
        in if 1 \<le> m \<and> m \<le> 12 \<and> 1 \<le> d \<and> d \<le> days_in_month y m
           then Some (days_from_civil y m d * 86400000) else None
      else None)"

definition new_Date :: "(json \<Rightarrow> int option) \<Rightarrow> json \<Rightarrow> int option" where
  "new_Date host v =
     (case v of
        JStr s \<Rightarrow> (case utc_midnight s of Some t \<Rightarrow> Some t | None \<Rightarrow> host v)
      | _ \<Rightarrow> host v)"

definition matches_ymd :: "string \<Rightarrow> bool" where
  \<comment> \<open>\<^verbatim>\<open>/^\d{4}\/\d{2}\/\d{2}$/\<close>\<close>
  "matches_ymd s =
     (length s = 10 \<and> list_all is_digit (take 4 s) \<and> s ! 4 = CHR ''/''
      \<and> list_all is_digit (take 2 (drop 5 s)) \<and> s ! 7 = CHR ''/''
      \<and> list_all is_digit (drop 8 s))"

definition matches_dmy :: "string \<Rightarrow> bool" where
  \<comment> \<open>\<^verbatim>\<open>/^\d{2}\/\d{2}\/\d{4}$/\<close>\<close>
  "matches_dmy s =
     (length s = 10 \<and> list_all is_digit (take 2 s) \<and> s ! 2 = CHR ''/''
      \<and> list_all is_digit (take 2 (drop 3 s)) \<and> s ! 5 = CHR ''/''
      \<and> list_all is_digit (drop 6 s))"

text \<open>
  A value that is not a string and makes no valid date yields \<^verbatim>\<open>null\<close>: the patterns
  are tested on its text and can match only for an array, whose missing \<^verbatim>\<open>split\<close>
  then throws into the \<^verbatim>\<open>catch\<close>.
\<close>

definition parseTimestamp :: "(json \<Rightarrow> int option) \<Rightarrow> json \<Rightarrow> string option" where
  "parseTimestamp host v =
     (if \<not> truthy v then None
      else
        let date = new_Date host v;
            date = (if date = None then
                      (case v of
                         JStr s \<Rightarrow>
                           if matches_ymd s then
                             (let year = take 4 s; month = take 2 (drop 5 s); day = drop 8 s
                              in new_Date host (JStr (year @ ''-'' @ month @ ''-'' @ day @ ''T00:00:00Z'')))
                           else if matches_dmy s then
                             (let day = take 2 s; month = take 2 (drop 3 s); year = drop 6 s
                              in new_Date host (JStr (year @ ''-'' @ month @ ''-'' @ day @ ''T00:00:00Z'')))
                           else date
                       | _ \<Rightarrow> date)
                    else date)
        in (case date of None \<Rightarrow> None | Some t \<Rightarrow> Some (toISOString t)))"

subsection \<open>normalize\<close>

record canonical =
  client_id :: js_text
  metric :: js_text
  amount :: jsnum
  timestamp :: string

record normalization =
  success :: bool
  data :: "canonical option"
  errors :: "js_text list"
  warnings :: "js_text list"

definition knownFields :: "string list" where
  "knownFields = [''source'', ''client'', ''client_id'', ''clientId'', ''sender'', ''payload'']"

definition payloadKnownFields :: "string list" where
  "payloadKnownFields =
     [''metric'', ''type'', ''event_type'', ''eventType'', ''name'',
      ''amount'', ''value'', ''quantity'', ''total'', ''sum'',
      ''timestamp'', ''time'', ''date'', ''created_at'', ''createdAt'', ''event_time'']"

definition payload_of :: "json \<Rightarrow> json" where
  \<comment> \<open>\<^verbatim>\<open>rawEvent.payload || rawEvent\<close>, for a \<open>rawEvent\<close> that is not \<^verbatim>\<open>null\<close>\<close>
  "payload_of rawEvent =
     (case property rawEvent ''payload'' of
        Some p \<Rightarrow> if truthy p then p else rawEvent
      | None \<Rightarrow> rawEvent)"

text \<open>
  \<open>now\<close> is the instant that \<^verbatim>\<open>new Date()\<close> reads. The fields of the object
  \<^verbatim>\<open>normalized\<close> are collected one by one, each absent when its check pushed an error;
  with no error every field is present. A \<^verbatim>\<open>null\<close> event throws at
  \<^verbatim>\<open>rawEvent.payload\<close>, before any warning is pushed.
\<close>

definition normalize_event :: "(json \<Rightarrow> int option) \<Rightarrow> int \<Rightarrow> json \<Rightarrow> normalization" where
  "normalize_event host now rawEvent =
     (if rawEvent = JNull then
        \<lparr>success = False, data = None,
         errors = [ [Lit ''Normalization exception: '', Thrown ''TypeError'']], warnings = []\<rparr>
      else
        let clientId = extractField rawEvent ''client_id'';
            errors1 = (if \<not> truthy clientId
                       then [ [Lit ''Missing required field: client_id (or equivalent)'']] else []);
            client = (if \<not> truthy clientId then None else Some (to_String clientId));
            payload = payload_of rawEvent;
            metric = extractField payload ''metric'';
            errors2 = (if \<not> truthy metric
                       then [ [Lit ''Missing required field: metric (or equivalent)'']] else []);
            metric' = (if \<not> truthy metric then None else Some (to_String metric));
            amount = extractField payload ''amount'';
            parsedAmount = (if amount = JNull then None else parseNumber amount);
            errors3 = (if amount = JNull
                       then [ [Lit ''Missing required field: amount (or equivalent)'']]
                       else if parsedAmount = None
                       then [ [Lit ''Invalid amount value: ''] @ to_String amount
                               @ [Lit '' (cannot be converted to number)'']]
                       else []);
            warnings3 = (case (amount, parsedAmount) of
                           (JStr s, Some n) \<Rightarrow>
                             [ [Lit ''Amount was provided as string '', Lit [CHR 0x22], Lit s,
                               Lit [CHR 0x22], Lit '', converted to '', Subst (JNum n)]]
                         | _ \<Rightarrow> []);
            timestamp = extractField payload ''timestamp'';
            parsedTimestamp = (if \<not> truthy timestamp then None else parseTimestamp host timestamp);
            errors4 = (if truthy timestamp \<and> parsedTimestamp = None
                       then [ [Lit ''Invalid timestamp format: ''] @ to_String timestamp] else []);
            timestamp' = (case parsedTimestamp of None \<Rightarrow> toISOString now | Some p \<Rightarrow> p);
            warnings4 = (if \<not> truthy timestamp
                         then [ [Lit ''Missing timestamp field, using current time as fallback'']]
                         else (case parsedTimestamp of
                                 None \<Rightarrow> [ [Lit ''Using current time due to invalid timestamp'']]
                               | Some p \<Rightarrow>
                                   if JStr p \<noteq> timestamp
                                   then [ [Lit ''Timestamp normalized from '', Lit [CHR 0x22]]
                                           @ to_String timestamp
                                           @ [Lit [CHR 0x22], Lit '' to '', Lit [CHR 0x22], Lit p,
                                              Lit [CHR 0x22]]]
                                   else []));
            warnings5 = map (\<lambda>key. [Lit ''Unknown field at root level: '', Lit key])
                          (filter (\<lambda>key. key \<notin> set knownFields) (Object_keys rawEvent));
            warnings6 = map (\<lambda>key. [Lit ''Unknown field in payload: '', Lit key])
                          (filter (\<lambda>key. key \<notin> set payloadKnownFields) (Object_keys payload));
            errors = errors1 @ errors2 @ errors3 @ errors4;
            warnings = warnings3 @ warnings4 @ warnings5 @ warnings6
        in (case (client, metric', parsedAmount) of
              (Some c, Some m, Some a) \<Rightarrow>
                if errors \<noteq> [] then
                  \<lparr>success = False, data = None, errors = errors, warnings = warnings\<rparr>
                else
                  \<lparr>success = True,
                   data = Some \<lparr>client_id = c, metric = m, amount = a, timestamp = timestamp'\<rparr>,
                   errors = [], warnings = warnings\<rparr>
            | _ \<Rightarrow> \<lparr>success = False, data = None, errors = errors, warnings = warnings\<rparr>))"


section \<open>Storage (database.js)\<close>

text \<open>
  The four tables, each a list of rows in rowid order, with the \<^verbatim>\<open>AUTOINCREMENT\<close>
  counter of each table. \<^verbatim>\<open>CURRENT_TIMESTAMP\<close> columns hold the instant of the insert.
\<close>

record raw_event =
  re_id :: nat
  event_hash :: fingerprint
  raw_data :: json_text
  received_at :: int

record normalized_event = canonical +
  ne_id :: nat
  raw_event_id :: nat
  status :: string

record failed_event =
  fe_id :: nat
  fe_raw_event_id :: "nat option"
  fe_event_hash :: fingerprint
  fe_raw_data :: json_text
  error_message :: js_text
  error_type :: string

record log_entry =
  log_event_hash :: fingerprint
  action :: string
  log_status :: string
  message :: "js_text option"

record tables =
  raw_events :: "raw_event list"
  normalized_events :: "normalized_event list"
  failed_events :: "failed_event list"
  processing_log :: "log_entry list"
  raw_seq :: nat
  normalized_seq :: nat
  failed_seq :: nat

text \<open>
  The \<^verbatim>\<open>DatabaseManager\<close>: the open connection (its tables and, while a transaction
  is open, the tables as they were at \<^verbatim>\<open>BEGIN\<close>), the flag \<^verbatim>\<open>inTransaction\<close> and
  the image that \<^verbatim>\<open>save\<close> last wrote to the file. The engine is taken to be a correct
  SQLite: \<^verbatim>\<open>ROLLBACK\<close> restores the tables of \<^verbatim>\<open>BEGIN\<close>, \<^verbatim>\<open>export\<close> only reads, and
  an insert fails only on a constraint of the schema.
\<close>

record database =
  current :: tables
  begun :: "tables option"
  inTransaction :: bool
  saved :: tables

datatype js_error = Error string

definition exec_BEGIN :: "database \<Rightarrow> database" where
  "exec_BEGIN this = this\<lparr>begun := Some (current this)\<rparr>"

definition exec_COMMIT :: "database \<Rightarrow> database" where
  "exec_COMMIT this = this\<lparr>begun := None\<rparr>"

definition exec_ROLLBACK :: "database \<Rightarrow> database" where
  "exec_ROLLBACK this =
     (case begun this of
        Some t \<Rightarrow> this\<lparr>current := t, begun := None\<rparr>
      | None \<Rightarrow> this)"

definition save :: "database \<Rightarrow> database" where
  "save this = (if \<not> inTransaction this then this\<lparr>saved := current this\<rparr> else this)"

definition transaction ::
  "(database \<Rightarrow> (js_error + 'a) \<times> database) \<Rightarrow> database \<Rightarrow> (js_error + 'a) \<times> database" where
  "transaction callback this =
     (let this1 = this\<lparr>inTransaction := True\<rparr>;
          this2 = exec_BEGIN this1
      in case callback this2 of
           (Inr result, this3) \<Rightarrow>
             (let this4 = exec_COMMIT this3;
                  this5 = save this4
              in (Inr result, this5\<lparr>inTransaction := False\<rparr>))
         | (Inl error, this3) \<Rightarrow>
             (let this4 = exec_ROLLBACK this3
              in (Inl error, this4\<lparr>inTransaction := False\<rparr>)))"

text \<open>The four \<^verbatim>\<open>INSERT\<close> statements, as the engine runs them on the tables.\<close>

definition insert_raw_event :: "fingerprint \<Rightarrow> json_text \<Rightarrow> int \<Rightarrow> tables \<Rightarrow> js_error + tables" where
  "insert_raw_event h d now t =
     (if \<exists>r \<in> set (raw_events t). event_hash r = h
      then Inl (Error ''UNIQUE constraint failed: raw_events.event_hash'')
      else Inr (t\<lparr>raw_events := raw_events t
                    @ [\<lparr>re_id = raw_seq t + 1, event_hash = h, raw_data = d, received_at = now\<rparr>],
                  raw_seq := raw_seq t + 1\<rparr>))"

definition insert_normalized_event :: "nat \<Rightarrow> canonical \<Rightarrow> tables \<Rightarrow> tables" where
  "insert_normalized_event rid c t =
     t\<lparr>normalized_events := normalized_events t
          @ [\<lparr>client_id = client_id c, metric = metric c, amount = amount c,
              timestamp = timestamp c, ne_id = normalized_seq t + 1, raw_event_id = rid,
              status = ''processed''\<rparr>],
       normalized_seq := normalized_seq t + 1\<rparr>"

definition insert_failed_event ::
  "nat option \<Rightarrow> fingerprint \<Rightarrow> json_text \<Rightarrow> js_text \<Rightarrow> string \<Rightarrow> tables \<Rightarrow> tables" where
  "insert_failed_event rid h d msg ty t =
     t\<lparr>failed_events := failed_events t
          @ [\<lparr>fe_id = failed_seq t + 1, fe_raw_event_id = rid, fe_event_hash = h,
              fe_raw_data = d, error_message = msg, error_type = ty\<rparr>],
       failed_seq := failed_seq t + 1\<rparr>"

definition insert_processing_log ::
  "fingerprint \<Rightarrow> string \<Rightarrow> string \<Rightarrow> js_text option \<Rightarrow> tables \<Rightarrow> tables" where
  "insert_processing_log h a st msg t =
     t\<lparr>processing_log := processing_log t
          @ [\<lparr>log_event_hash = h, action = a, log_status = st, message = msg\<rparr>]\<rparr>"

section \<open>Idempotency handler (idempotencyHandler.js)\<close>

record duplicate =
  isDuplicate :: bool
  dup_rawEventId :: nat
  dup_normalizedId :: "nat option"
  dup_status :: "string option"
  firstSeenAt :: int
  dup_data :: "canonical option"

definition checkDuplicate :: "database \<Rightarrow> fingerprint \<Rightarrow> duplicate option" where
  "checkDuplicate this eventHash =
     (case find (\<lambda>re. event_hash re = eventHash) (raw_events (current this)) of
        None \<Rightarrow> None
      | Some re \<Rightarrow>
          (let ne = find (\<lambda>ne. raw_event_id ne = re_id re) (normalized_events (current this))
           in Some \<lparr>isDuplicate = True, dup_rawEventId = re_id re,
                    dup_normalizedId = map_option ne_id ne,
                    dup_status = map_option status ne,
                    firstSeenAt = received_at re,
                    dup_data = (case ne of
                                  None \<Rightarrow> None
                                | Some n \<Rightarrow>
                                    if ne_id n \<noteq> 0
                                    then Some \<lparr>client_id = client_id n, metric = metric n,
                                               amount = amount n, timestamp = timestamp n\<rparr>
                                    else None)\<rparr>))"

definition logProcessing ::
  "database \<Rightarrow> fingerprint \<Rightarrow> string \<Rightarrow> string \<Rightarrow> js_text option \<Rightarrow> database" where
  "logProcessing this eventHash act st msg =
     save (this\<lparr>current := insert_processing_log eventHash act st msg (current this)\<rparr>)"

definition message_includes :: "string \<Rightarrow> string \<Rightarrow> bool" where
  "message_includes s p = list_ex (\<lambda>i. take (length p) (drop i s) = p) [0..<Suc (length s)]"

definition storeRawEvent ::
  "database \<Rightarrow> int \<Rightarrow> fingerprint \<Rightarrow> json \<Rightarrow> (js_error + nat option) \<times> database" where
  "storeRawEvent this now eventHash rawData =
     (case insert_raw_event eventHash (JSON_stringify rawData) now (current this) of
        Inr t \<Rightarrow> (Inr (Some (raw_seq t)), save (this\<lparr>current := t\<rparr>))
      | Inl (Error msg) \<Rightarrow>
          if message_includes msg ''UNIQUE constraint failed'' then (Inr None, this)
          else (Inl (Error msg), this))"

definition storeNormalizedEvent :: "database \<Rightarrow> nat \<Rightarrow> canonical \<Rightarrow> nat \<times> database" where
  "storeNormalizedEvent this rawEventId normalizedData =
     (let t = insert_normalized_event rawEventId normalizedData (current this)
      in (normalized_seq t, save (this\<lparr>current := t\<rparr>)))"

definition storeFailedEvent ::
  "database \<Rightarrow> nat \<Rightarrow> fingerprint \<Rightarrow> json \<Rightarrow> js_text \<Rightarrow> string \<Rightarrow> database" where
  "storeFailedEvent this rawEventId eventHash rawData errorMessage errorType =
     save (this\<lparr>current := insert_failed_event (Some rawEventId) eventHash
                               (JSON_stringify rawData) errorMessage errorType (current this)\<rparr>)"

section \<open>Event service (eventService.js)\<close>

text \<open>
  The five object literals that \<^verbatim>\<open>ingestEvent\<close> returns, each with the fields it
  carries beside \<^verbatim>\<open>status\<close>, \<^verbatim>\<open>success\<close> and \<^verbatim>\<open>message\<close>, which are fixed per literal.
\<close>

datatype response =
    Duplicate fingerprint int "canonical option"
      \<comment> \<open>\<^verbatim>\<open>isDuplicate: true\<close>, \<^verbatim>\<open>eventHash\<close>, \<^verbatim>\<open>firstSeenAt\<close>, \<^verbatim>\<open>data\<close>\<close>
  | ValidationFailed "js_text list" "js_text list" fingerprint
      \<comment> \<open>\<^verbatim>\<open>errors\<close>, \<^verbatim>\<open>warnings\<close>, \<^verbatim>\<open>eventHash\<close>\<close>
  | Processed fingerprint nat nat canonical "js_text list"
      \<comment> \<open>\<^verbatim>\<open>eventHash\<close>, \<^verbatim>\<open>rawEventId\<close>, \<^verbatim>\<open>normalizedEventId\<close>, \<^verbatim>\<open>data\<close>, \<^verbatim>\<open>warnings\<close>\<close>
  | DatabaseError string fingerprint
      \<comment> \<open>\<^verbatim>\<open>error\<close>, \<^verbatim>\<open>eventHash\<close>, \<^verbatim>\<open>retryable: true\<close>\<close>
  | UnexpectedError string fingerprint
      \<comment> \<open>\<^verbatim>\<open>error\<close>, \<^verbatim>\<open>eventHash\<close>\<close>

fun status_code :: "response \<Rightarrow> nat" where
  "status_code (Duplicate _ _ _) = 200"
| "status_code (ValidationFailed _ _ _) = 400"
| "status_code (Processed _ _ _ _ _) = 201"
| "status_code (DatabaseError _ _) = 500"
| "status_code (UnexpectedError _ _) = 500"

fun succeeded :: "response \<Rightarrow> bool" where
  \<comment> \<open>the field \<^verbatim>\<open>success\<close>\<close>
  "succeeded (Duplicate _ _ _) = True"
| "succeeded (Processed _ _ _ _ _) = True"
| "succeeded _ = False"

fun retryable :: "response \<Rightarrow> bool" where
  "retryable (DatabaseError _ _) = True"
| "retryable _ = False"

fun join :: "js_text list \<Rightarrow> js_text" where
  \<comment> \<open>\<^verbatim>\<open>errors.join('; ')\<close>\<close>
  "join [] = []"
| "join [e] = e"
| "join (e # es) = e @ [Lit ''; ''] @ join es"

text \<open>The callback handed to \<^verbatim>\<open>this.db.transaction\<close>, and the wrapped function.\<close>

definition persist ::
  "bool \<Rightarrow> int \<Rightarrow> fingerprint \<Rightarrow> json \<Rightarrow> canonical \<Rightarrow> database
     \<Rightarrow> (js_error + nat \<times> nat) \<times> database" where
  "persist simulateFailure now hash raw normalized this =
     (case storeRawEvent this now hash raw of
        (Inl e, this1) \<Rightarrow> (Inl e, this1)
      | (Inr None, this1) \<Rightarrow>
          (Inl (Error ''Failed to store raw event (possible race condition)''), this1)
      | (Inr (Some rawEventId), this1) \<Rightarrow>
          if rawEventId = 0 then
            (Inl (Error ''Failed to store raw event (possible race condition)''), this1)
          else if simulateFailure then (Inl (Error ''Simulated database failure''), this1)
          else
            (let (normalizedEventId, this2) = storeNormalizedEvent this1 rawEventId normalized
             in (Inr (rawEventId, normalizedEventId), this2)))"

definition processTransaction ::
  "bool \<Rightarrow> int \<Rightarrow> database \<Rightarrow> fingerprint \<Rightarrow> json \<Rightarrow> canonical
     \<Rightarrow> (js_error + nat \<times> nat) \<times> database" where
  "processTransaction simulateFailure now this hash raw normalized =
     transaction (persist simulateFailure now hash raw normalized) this"

definition record_failure ::
  "database \<Rightarrow> int \<Rightarrow> fingerprint \<Rightarrow> json \<Rightarrow> js_text \<Rightarrow> string
     \<Rightarrow> (js_error + unit) \<times> database" where
  \<comment> \<open>\<^verbatim>\<open>storeRawEvent\<close>, then \<^verbatim>\<open>storeFailedEvent\<close> if it returned a row id\<close>
  "record_failure this now eventHash rawEvent msg ty =
     (case storeRawEvent this now eventHash rawEvent of
        (Inl e, this1) \<Rightarrow> (Inl e, this1)
      | (Inr None, this1) \<Rightarrow> (Inr (), this1)
      | (Inr (Some rawEventId), this1) \<Rightarrow>
          if rawEventId \<noteq> 0
          then (Inr (), storeFailedEvent this1 rawEventId eventHash rawEvent msg ty)
          else (Inr (), this1))"

definition ingestEvent ::
  "(json \<Rightarrow> int option) \<Rightarrow> int \<Rightarrow> database \<Rightarrow> json \<Rightarrow> bool \<Rightarrow> response \<times> database" where
  "ingestEvent host now this rawEvent simulateFailure =
     (let eventHash = generateEventHash rawEvent;
          this1 = logProcessing this eventHash ''ingest'' ''started'' None
      in case checkDuplicate this1 eventHash of
           Some dup \<Rightarrow>
             (Duplicate eventHash (firstSeenAt dup) (dup_data dup),
              logProcessing this1 eventHash ''ingest'' ''duplicate''
                (Some [Lit ''Event already processed'']))
         | None \<Rightarrow>
             (let normalizationResult = normalize_event host now rawEvent
              in case (success normalizationResult, data normalizationResult) of
                   (True, Some normalized) \<Rightarrow>
                     (case processTransaction simulateFailure now this1 eventHash rawEvent normalized of
                        (Inr (rawEventId, normalizedEventId), this2) \<Rightarrow>
                          (Processed eventHash rawEventId normalizedEventId normalized
                             (warnings normalizationResult),
                           logProcessing this2 eventHash ''ingest'' ''success''
                             (Some [Lit ''Event processed successfully'']))
                      | (Inl (Error txnError), this2) \<Rightarrow>
                          (let this3 = logProcessing this2 eventHash ''persist'' ''failed''
                                         (Some [Lit txnError]);
                               this4 = snd (record_failure this3 now eventHash rawEvent
                                              [Lit txnError] ''persistence_error'')
                           in (DatabaseError txnError eventHash, this4)))
                 | _ \<Rightarrow>
                     (case record_failure this1 now eventHash rawEvent
                             (join (errors normalizationResult)) ''validation_error'' of
                        (Inl (Error e), this2) \<Rightarrow>
                          (UnexpectedError e eventHash,
                           logProcessing this2 eventHash ''ingest'' ''error'' (Some [Lit e]))
                      | (Inr u, this2) \<Rightarrow>
                          (ValidationFailed (errors normalizationResult)
                             (warnings normalizationResult) eventHash,
                           logProcessing this2 eventHash ''normalize'' ''failed''
                             (Some (join (errors normalizationResult)))))))"

definition empty_tables :: tables where
  "empty_tables = \<lparr>raw_events = [], normalized_events = [], failed_events = [],
                   processing_log = [], raw_seq = 0, normalized_seq = 0, failed_seq = 0\<rparr>"

definition initial :: database where
  \<comment> \<open>the database after \<^verbatim>\<open>init\<close> on a fresh file\<close>
  "initial = \<lparr>current = empty_tables, begun = None, inTransaction = False, saved = empty_tables\<rparr>"


section \<open>Properties\<close>

subsection \<open>Consistent tables\<close>

text \<open>
  What the schema and the sequencing of the service maintain: row ids are positive and
  at most the counter, fingerprints of raw events are unique, every normalized event
  refers to a raw event, and no two normalized events refer to the same one.
\<close>

definition consistent :: "tables \<Rightarrow> bool" where
  "consistent t =
     ((\<forall>r \<in> set (raw_events t). 0 < re_id r \<and> re_id r \<le> raw_seq t)
      \<and> distinct (map event_hash (raw_events t))
      \<and> (\<forall>n \<in> set (normalized_events t).
            0 < ne_id n \<and> (\<exists>r \<in> set (raw_events t). re_id r = raw_event_id n))
      \<and> distinct (map raw_event_id (normalized_events t)))"

definition stored_canonical :: "tables \<Rightarrow> raw_event \<Rightarrow> canonical option" where
  \<comment> \<open>the canonical data stored for a raw event, if any\<close>
  "stored_canonical t re =
     map_option (\<lambda>n. \<lparr>client_id = client_id n, metric = metric n, amount = amount n,
                        timestamp = timestamp n\<rparr>)
       (find (\<lambda>n. raw_event_id n = re_id re) (normalized_events t))"


definition amount_missing :: "json \<Rightarrow> bool" where
  \<comment> \<open>no alias of the amount has a present, non-null, non-empty value\<close>
  "amount_missing rawEvent =
     (\<forall>name \<in> set [''amount'', ''value'', ''quantity'', ''total'', ''sum''].
        property (payload_of rawEvent) name \<in> {None, Some JNull, Some (JStr [])})"

definition amounts_are_numbers :: "tables \<Rightarrow> bool" where
  \<comment> \<open>no stored amount is \<^verbatim>\<open>NaN\<close>\<close>
  "amounts_are_numbers t = (\<forall>n \<in> set (normalized_events t). amount n \<noteq> NaN)"

text \<open>
  Two payloads that differ only in which alias names one canonical field: the same value
  under another key of the same alias list, at the top level or inside \<^verbatim>\<open>payload\<close>.
\<close>

inductive alias_choice :: "json \<Rightarrow> json \<Rightarrow> bool" where
  renamed:
    "(field, names) \<in> set fieldMappings \<Longrightarrow> key \<in> set names \<Longrightarrow> key' \<in> set names \<Longrightarrow>
     key \<noteq> key' \<Longrightarrow> key \<notin> fst ` set (kvs1 @ kvs2) \<Longrightarrow> key' \<notin> fst ` set (kvs1 @ kvs2) \<Longrightarrow>
     alias_choice (JObj (kvs1 @ (key, v) # kvs2)) (JObj (kvs1 @ (key', v) # kvs2))"
| in_payload:
    "alias_choice p q \<Longrightarrow> ''payload'' \<notin> fst ` set (kvs1 @ kvs2) \<Longrightarrow>
     alias_choice (JObj (kvs1 @ (''payload'', p) # kvs2)) (JObj (kvs1 @ (''payload'', q) # kvs2))"

subsection \<open>Example inputs\<close>

definition example_event :: json where
  \<comment> \<open>the event of \<^verbatim>\<open>test.js\<close>\<close>
  "example_event =
     JObj [(''source'', JStr ''client_A''),
           (''payload'', JObj [(''metric'', JStr ''revenue''), (''amount'', JStr ''1200''),
                              (''timestamp'', JStr ''2024/01/01'')])]"

definition strict_host :: "json \<Rightarrow> int option" where
  \<comment> \<open>a host whose \<^verbatim>\<open>Date\<close> accepts no text outside the ECMAScript format\<close>
  "strict_host v = None"

definition local_time_host :: "int \<Rightarrow> json \<Rightarrow> int option" where
  \<comment> \<open>a host whose \<^verbatim>\<open>Date\<close> reads \<^verbatim>\<open>YYYY/MM/DD\<close> as midnight local time, as V8 does,
      in a zone \<open>offset\<close> minutes east of UTC\<close>
  "local_time_host offset v =
     (case v of
        JStr s \<Rightarrow>
          if matches_ymd s then
            (let y = int (digits_value (take 4 s));
                 m = int (digits_value (take 2 (drop 5 s)));
                 d = int (digits_value (drop 8 s))
             in if 1 \<le> m \<and> m \<le> 12 \<and> 1 \<le> d \<and> d \<le> days_in_month y m
                then Some (days_from_civil y m d * 86400000 - offset * 60000) else None)
          else None
      | _ \<Rightarrow> None)"


definition amount_event :: json where
  "amount_event =
     JObj [(''source'', JStr ''client_A''),
           (''payload'', JObj [(''metric'', JStr ''revenue''), (''amount'', JStr ''1,200.50'')])]"

definition value_event :: json where
  \<comment> \<open>\<open>amount_event\<close> with the alias \<^verbatim>\<open>value\<close> for the amount\<close>
  "value_event =
     JObj [(''source'', JStr ''client_A''),
           (''payload'', JObj [(''metric'', JStr ''revenue''), (''value'', JStr ''1,200.50'')])]"

definition no_amount_event :: json where
  "no_amount_event =
     JObj [(''source'', JStr ''client_A''), (''payload'', JObj [(''metric'', JStr ''revenue'')])]"


definition refund_event :: json where
  "refund_event =
     JObj [(''source'', JStr ''client_A''),
           (''payload'', JObj [(''metric'', JStr ''refund''), (''amount'', JNum (Finite (- 5)))])]"

definition bad_date_event :: json where
  "bad_date_event =
     JObj [(''source'', JStr ''client_A''),
           (''payload'', JObj [(''metric'', JStr ''revenue''), (''amount'', JNum (Finite 10)),
                              (''timestamp'', JStr ''not-a-date'')])]"


definition sender_event :: json where
  \<comment> \<open>\<open>amount_event\<close> with the alias \<^verbatim>\<open>sender\<close> for the client\<close>
  "sender_event =
     JObj [(''sender'', JStr ''client_A''),
           (''payload'', JObj [(''metric'', JStr ''revenue''), (''amount'', JStr ''1,200.50'')])]"


definition reordered_event :: json where
  \<comment> \<open>\<open>example_event\<close> with keys reordered, case and padding changed, and an \<^verbatim>\<open>id\<close>\<close>
  "reordered_event =
     JObj [(''id'', JNum (Finite 7)),
           (''payload'', JObj [(''timestamp'', JStr ''2024/01/01''), (''amount'', JStr ''1200''),
                              (''metric'', JStr '' Revenue '')]),
           (''source'', JStr ''CLIENT_A'')]"

definition example_canonical :: canonical where
  "example_canonical =
     \<lparr>client_id = [Lit ''client_A''], metric = [Lit ''revenue''], amount = Finite 1200,
      timestamp = ''2024-01-01T00:00:00.000Z''\<rparr>"

definition nonnegative :: "jsnum \<Rightarrow> bool" where
  \<comment> \<open>a real number that is at least zero\<close>
  "nonnegative n = (case n of Finite r \<Rightarrow> 0 \<le> r | _ \<Rightarrow> False)"


section \<open>Proofs\<close>

subsection \<open>The hasher identifies equivalent payloads\<close>

lemma of_char_to_lower:
  "is_upper c \<Longrightarrow> of_char (to_lower c) = of_char c + (32::nat)"
  by (simp add: to_lower_def is_upper_def)

lemma is_space_to_lower [simp]: "is_space (to_lower c) = is_space c"
proof (cases "is_upper c")
  case True
  then show ?thesis
    by (simp add: is_space_def of_char_to_lower) (simp add: is_upper_def)
next
  case False
  then show ?thesis by (simp add: to_lower_def)
qed

lemma to_lower_of_upper:
  assumes "is_upper c" "of_char d = of_char c + (32::nat)"
  shows "to_lower c = to_lower d"
proof -
  have "\<not> is_upper d" using assms by (simp add: is_upper_def)
  then have "to_lower d = d" by (simp add: to_lower_def)
  moreover have "to_lower c = char_of (of_char d :: nat)"
    using assms by (simp add: to_lower_def)
  ultimately show ?thesis by simp
qed

lemma case_variant_to_lower: "case_variant c d \<Longrightarrow> to_lower c = to_lower d"
  by (auto simp: case_variant_def intro: to_lower_of_upper to_lower_of_upper[symmetric])

lemma toLowerCase_case_variant: "list_all2 case_variant s t \<Longrightarrow> toLowerCase s = toLowerCase t"
  unfolding toLowerCase_def
  by (induction rule: list_all2_induct) (auto dest: case_variant_to_lower)

lemma js_trim_toLowerCase: "js_trim (toLowerCase s) = toLowerCase (js_trim s)"
  by (simp add: js_trim_def toLowerCase_def dropWhile_map rev_map comp_def)

lemma dropWhile_all: "\<forall>x\<in>set xs. P x \<Longrightarrow> dropWhile P (xs @ ys) = dropWhile P ys"
  by (induction xs) auto

lemma dropWhile_not_all: "\<not> (\<forall>x\<in>set xs. P x) \<Longrightarrow> dropWhile P (xs @ ys) = dropWhile P xs @ ys"
  by (induction xs) auto

lemma js_trim_padding:
  assumes "list_all is_space l" "list_all is_space r"
  shows "js_trim (l @ s @ r) = js_trim s"
proof -
  have l: "dropWhile is_space (l @ s @ r) = dropWhile is_space (s @ r)"
    using assms(1) by (intro dropWhile_all) (simp add: list_all_iff)
  have r: "dropWhile is_space (rev r @ xs) = dropWhile is_space xs" for xs
    using assms(2) by (intro dropWhile_all) (simp add: list_all_iff)
  show ?thesis
  proof (cases "\<forall>x\<in>set s. is_space x")
    case True
    then have "dropWhile is_space (s @ r) = []" "dropWhile is_space s = []"
      using assms(2) by (auto simp: list_all_iff)
    then show ?thesis by (simp only: js_trim_def l)
  next
    case False
    then have "dropWhile is_space (s @ r) = dropWhile is_space s @ r"
      by (rule dropWhile_not_all)
    then show ?thesis by (simp only: js_trim_def l r rev_append)
  qed
qed

lemma insort_key_map:
  "insort_key f (g x) (map g xs) = map g (insort_key (\<lambda>a. f (g a)) x xs)"
  by (induction xs) auto

lemma sort_key_map: "sort_key f (map g xs) = map g (sort_key (\<lambda>a. f (g a)) xs)"
  by (induction xs) (auto simp: insort_key_map)

lemma normalize_object_value:
  assumes "normalizeForHashing a = normalizeForHashing b"
  shows "normalizeForHashing (JObj (kvs1 @ (key, a) # kvs2)) = normalizeForHashing (JObj (kvs1 @ (key, b) # kvs2))"
proof -
  let ?g = "\<lambda>(key, v). (key, normalizeForHashing v)"
  let ?keep = "\<lambda>(key, v). \<not> skipped_key key"
  have fst: "(\<lambda>a. fst (?g a)) = fst" by auto
  have keep: "(\<lambda>a. ?keep (?g a)) = ?keep" by auto
  have *: "map ?g (filter ?keep (sort_key fst kvs)) = filter ?keep (sort_key fst (map ?g kvs))" for kvs
    by (simp only: sort_key_map filter_map comp_def fst keep)
  have "map ?g (kvs1 @ (key, a) # kvs2) = map ?g (kvs1 @ (key, b) # kvs2)"
    using assms by simp
  then show ?thesis by (simp only: normalizeForHashing.simps *)
qed

lemma normalize_key_order:
  assumes "mset kvs = mset kvs'" "distinct (map fst kvs)"
  shows "normalizeForHashing (JObj kvs) = normalizeForHashing (JObj kvs')"
proof -
  have "inj_on fst (set kvs)" using assms(2) by (simp add: distinct_map)
  then have "sort_key fst kvs = sort_key fst kvs'"
    using assms(1) by (rule sort_key_eq_sort_key[rotated])
  then show ?thesis by simp
qed

lemma normalize_receipt_key:
  assumes "key \<in> {''received_at'', ''created_at'', ''id''}"
  shows "normalizeForHashing (JObj (kvs1 @ kvs2)) = normalizeForHashing (JObj (kvs1 @ (key, v) # kvs2))"
proof -
  have "skipped_key key" using assms by (auto simp: skipped_key_def)
  then have "filter (\<lambda>(key, v). \<not> skipped_key key) (kvs1 @ (key, v) # kvs2)
           = filter (\<lambda>(key, v). \<not> skipped_key key) (kvs1 @ kvs2)"
    by simp
  then show ?thesis by (simp only: normalizeForHashing.simps filter_sort)
qed

lemma same_content_normalize:
  "same_content a b \<Longrightarrow> normalizeForHashing a = normalizeForHashing b"
proof (induction rule: same_content.induct)
  case (key_order kvs kvs')
  then show ?case by (rule normalize_key_order)
next
  case (white_space l r s)
  then show ?case by (simp add: js_trim_padding)
next
  case (letter_case s t)
  then have "toLowerCase s = toLowerCase t" by (rule toLowerCase_case_variant)
  then show ?case by (simp add: js_trim_toLowerCase[symmetric])
next
  case (receipt_key key kvs1 kvs2 v)
  then show ?case by (rule normalize_receipt_key)
next
  case (in_object a b kvs1 key kvs2)
  from in_object.IH show ?case by (rule normalize_object_value)
next
  case (in_array a b xs ys)
  then show ?case by simp
next
  case (same a)
  show ?case by (rule refl)
next
  case (swap a b)
  from swap.IH show ?case by (rule sym)
next
  case (chain a b c)
  from chain.IH show ?case by (rule trans)
qed

text \<open>
  Claim C3. Two payloads that differ only in the order of object keys, in white space
  around string values or the case of their letters, or in the presence of keys named
  \<^verbatim>\<open>received_at\<close>, \<^verbatim>\<open>created_at\<close> or \<^verbatim>\<open>id\<close> at any depth, have the same fingerprint.
\<close>

theorem equivalent_payloads_same_fingerprint: "same_content a b \<Longrightarrow> generateEventHash a = generateEventHash b"
  by (simp add: generateEventHash_def same_content_normalize)

subsection \<open>The transactional unit\<close>

lemma current_save [simp]: "current (save this) = current this"
  by (simp add: save_def)

lemma begun_save [simp]: "begun (save this) = begun this"
  by (simp add: save_def)

lemma inTransaction_save [simp]: "inTransaction (save this) = inTransaction this"
  by (simp add: save_def)

lemma saved_save_inTransaction [simp]: "inTransaction this \<Longrightarrow> saved (save this) = saved this"
  by (simp add: save_def)

lemma storeRawEvent_keeps:
  assumes "storeRawEvent this now h raw = (r, this')"
  shows "begun this' = begun this" "inTransaction this' = inTransaction this"
    "inTransaction this \<Longrightarrow> saved this' = saved this"
  using assms
  by (auto simp: storeRawEvent_def split: sum.splits js_error.splits if_splits)

lemma storeNormalizedEvent_keeps:
  assumes "storeNormalizedEvent this rid c = (r, this')"
  shows "begun this' = begun this" "inTransaction this' = inTransaction this"
    "inTransaction this \<Longrightarrow> saved this' = saved this"
  using assms by (auto simp: storeNormalizedEvent_def Let_def)

lemma persist_keeps:
  assumes "persist sf now h raw c this = (r, this')"
  shows "begun this' = begun this" "inTransaction this' = inTransaction this"
    "inTransaction this \<Longrightarrow> saved this' = saved this"
proof -
  obtain r1 this1 where s: "storeRawEvent this now h raw = (r1, this1)"
    by (cases "storeRawEvent this now h raw")
  note k = storeRawEvent_keeps[OF s]
  have "begun this' = begun this \<and> inTransaction this' = inTransaction this
        \<and> (inTransaction this \<longrightarrow> saved this' = saved this)"
  proof (cases r1)
    case (Inl e)
    with assms s k show ?thesis by (simp add: persist_def)
  next
    case (Inr o1)
    show ?thesis
    proof (cases o1)
      case None
      with Inr assms s k show ?thesis by (simp add: persist_def)
    next
      case (Some rid)
      obtain nid this2 where n: "storeNormalizedEvent this1 rid c = (nid, this2)"
        by (cases "storeNormalizedEvent this1 rid c")
      note k2 = storeNormalizedEvent_keeps[OF n]
      from Some Inr assms s n k k2 show ?thesis
        by (auto simp: persist_def split: if_splits)
    qed
  qed
  then show "begun this' = begun this" "inTransaction this' = inTransaction this"
    "inTransaction this \<Longrightarrow> saved this' = saved this" by simp_all
qed

lemma transaction_rolls_back:
  assumes keeps: "\<And>d r d'. callback d = (r, d') \<Longrightarrow>
            begun d' = begun d \<and> (inTransaction d \<longrightarrow> saved d' = saved d)"
    and fails: "fst (transaction callback this) = Inl e"
  shows "current (snd (transaction callback this)) = current this"
    and "saved (snd (transaction callback this)) = saved this"
proof -
  let ?d = "exec_BEGIN (this\<lparr>inTransaction := True\<rparr>)"
  obtain r d' where c: "callback ?d = (r, d')" by (cases "callback ?d")
  from keeps[OF c] have k: "begun d' = Some (current this)" "saved d' = saved this"
    by (simp_all add: exec_BEGIN_def)
  from fails c obtain e' where r: "r = Inl e'"
    by (cases r) (simp_all add: transaction_def Let_def)
  from c r k show "current (snd (transaction callback this)) = current this"
    by (simp add: transaction_def Let_def exec_ROLLBACK_def)
  from c r k show "saved (snd (transaction callback this)) = saved this"
    by (simp add: transaction_def Let_def exec_ROLLBACK_def)
qed

text \<open>
  Claim C2. Whatever failure is raised inside the transactional unit (the raw insert
  refused, the injected fault), the tables of the connection are afterwards exactly the
  tables from before the call, and so is the image on file: no write of the failed unit
  is visible.
\<close>

theorem failed_unit_leaves_storage_unchanged:
  assumes "fst (processTransaction simulateFailure now this hash raw normalized) = Inl e"
  shows "current (snd (processTransaction simulateFailure now this hash raw normalized)) = current this
       \<and> saved (snd (processTransaction simulateFailure now this hash raw normalized)) = saved this"
  using assms transaction_rolls_back[of "persist simulateFailure now hash raw normalized" this e]
    persist_keeps[of simulateFailure now hash raw normalized]
  unfolding processTransaction_def by blast

subsection \<open>Ingestion of a rejected payload\<close>

lemma logProcessing_tables [simp]:
  "raw_events (current (logProcessing this h a s m)) = raw_events (current this)"
  "normalized_events (current (logProcessing this h a s m)) = normalized_events (current this)"
  "failed_events (current (logProcessing this h a s m)) = failed_events (current this)"
  "raw_seq (current (logProcessing this h a s m)) = raw_seq (current this)"
  "normalized_seq (current (logProcessing this h a s m)) = normalized_seq (current this)"
  "failed_seq (current (logProcessing this h a s m)) = failed_seq (current this)"
  by (simp_all add: logProcessing_def insert_processing_log_def)

lemma checkDuplicate_logProcessing [simp]:
  "checkDuplicate (logProcessing this h a s m) h' = checkDuplicate this h'"
  by (simp add: checkDuplicate_def cong: option.case_cong)

lemma checkDuplicate_None:
  "\<forall>r \<in> set (raw_events (current this)). event_hash r \<noteq> h \<Longrightarrow> checkDuplicate this h = None"
proof -
  assume "\<forall>r \<in> set (raw_events (current this)). event_hash r \<noteq> h"
  then have "find (\<lambda>re. event_hash re = h) (raw_events (current this)) = None"
    by (simp add: find_None_iff)
  then show ?thesis by (simp add: checkDuplicate_def)
qed

lemma first_present_missing:
  "\<forall>name \<in> set names. property obj name \<in> {None, Some JNull, Some (JStr [])}
     \<Longrightarrow> first_present obj names = JNull"
  by (induction names) auto

lemma extractField_amount_missing:
  "amount_missing rawEvent \<Longrightarrow> extractField (payload_of rawEvent) ''amount'' = JNull"
proof -
  assume m: "amount_missing rawEvent"
  have "extractField (payload_of rawEvent) ''amount''
        = first_present (payload_of rawEvent) [''amount'', ''value'', ''quantity'', ''total'', ''sum'']"
    by (simp add: extractField_def fieldMappings_def del: first_present.simps)
  also have "\<dots> = JNull"
    using m unfolding amount_missing_def by (rule first_present_missing)
  finally show ?thesis .
qed

lemma normalize_amount_missing:
  assumes "rawEvent \<noteq> JNull" "extractField (payload_of rawEvent) ''amount'' = JNull"
  shows "\<not> success (normalize_event host now rawEvent)"
    and "data (normalize_event host now rawEvent) = None"
    and "[Lit ''Missing required field: amount (or equivalent)''] \<in> set (errors (normalize_event host now rawEvent))"
  using assms by (simp_all add: normalize_event_def Let_def split: option.splits)

lemma record_failure_fresh:
  assumes "\<forall>r \<in> set (raw_events (current this)). event_hash r \<noteq> h"
  shows "\<exists>this'. record_failure this now h raw msg ty = (Inr (), this')
    \<and> raw_events (current this') = raw_events (current this)
          @ [\<lparr>re_id = raw_seq (current this) + 1, event_hash = h,
              raw_data = JSON_stringify raw, received_at = now\<rparr>]
    \<and> failed_events (current this') = failed_events (current this)
          @ [\<lparr>fe_id = failed_seq (current this) + 1,
              fe_raw_event_id = Some (raw_seq (current this) + 1), fe_event_hash = h,
              fe_raw_data = JSON_stringify raw, error_message = msg, error_type = ty\<rparr>]
    \<and> normalized_events (current this') = normalized_events (current this)"
  using assms
  by (simp add: record_failure_def storeRawEvent_def insert_raw_event_def storeFailedEvent_def
        insert_failed_event_def)

lemma ingestEvent_rejects:
  assumes fresh: "\<forall>r \<in> set (raw_events (current this)). event_hash r \<noteq> generateEventHash rawEvent"
    and fails: "\<not> success (normalize_event host now rawEvent)"
    and run: "ingestEvent host now this rawEvent simulateFailure = (response, this')"
  shows "response = ValidationFailed (errors (normalize_event host now rawEvent))
                      (warnings (normalize_event host now rawEvent)) (generateEventHash rawEvent)
    \<and> raw_events (current this') = raw_events (current this)
          @ [\<lparr>re_id = raw_seq (current this) + 1, event_hash = generateEventHash rawEvent,
              raw_data = JSON_stringify rawEvent, received_at = now\<rparr>]
    \<and> failed_events (current this') = failed_events (current this)
          @ [\<lparr>fe_id = failed_seq (current this) + 1,
              fe_raw_event_id = Some (raw_seq (current this) + 1),
              fe_event_hash = generateEventHash rawEvent,
              fe_raw_data = JSON_stringify rawEvent,
              error_message = join (errors (normalize_event host now rawEvent)),
              error_type = ''validation_error''\<rparr>]
    \<and> normalized_events (current this') = normalized_events (current this)"
proof -
  let ?h = "generateEventHash rawEvent"
  let ?this1 = "logProcessing this ?h ''ingest'' ''started'' None"
  have dup: "checkDuplicate ?this1 ?h = None"
    using fresh by (simp add: checkDuplicate_None)
  let ?msg = "join (errors (normalize_event host now rawEvent))"
  have fresh1: "\<forall>r \<in> set (raw_events (current ?this1)). event_hash r \<noteq> ?h"
    using fresh by simp
  from record_failure_fresh[OF fresh1, of now rawEvent ?msg "''validation_error''"]
  obtain d where d: "record_failure ?this1 now ?h rawEvent ?msg ''validation_error'' = (Inr (), d)"
    and tabs: "raw_events (current d) = raw_events (current this)
          @ [\<lparr>re_id = raw_seq (current this) + 1, event_hash = ?h,
              raw_data = JSON_stringify rawEvent, received_at = now\<rparr>]"
     "failed_events (current d) = failed_events (current this)
          @ [\<lparr>fe_id = failed_seq (current this) + 1,
              fe_raw_event_id = Some (raw_seq (current this) + 1), fe_event_hash = ?h,
              fe_raw_data = JSON_stringify rawEvent,
              error_message = ?msg,
              error_type = ''validation_error''\<rparr>]"
     "normalized_events (current d) = normalized_events (current this)"
    by auto
  from run dup fails d have "response = ValidationFailed (errors (normalize_event host now rawEvent))
                      (warnings (normalize_event host now rawEvent)) ?h"
    and "this' = logProcessing d ?h ''normalize'' ''failed''
                   (Some (join (errors (normalize_event host now rawEvent))))"
    by (auto simp: ingestEvent_def Let_def)
  with tabs show ?thesis by simp
qed


subsection \<open>Ingestion of a known fingerprint\<close>

lemma find_unique:
  "distinct (map f xs) \<Longrightarrow> x \<in> set xs \<Longrightarrow> find (\<lambda>y. f y = f x) xs = Some x"
  by (induction xs) (auto simp: image_iff)

lemma checkDuplicate_Some:
  assumes "consistent (current this)" "re \<in> set (raw_events (current this))" "event_hash re = h"
  shows "\<exists>dup. checkDuplicate this h = Some dup \<and> firstSeenAt dup = received_at re
           \<and> dup_data dup = stored_canonical (current this) re"
proof -
  have f: "find (\<lambda>r. event_hash r = h) (raw_events (current this)) = Some re"
    using assms find_unique[of event_hash "raw_events (current this)" re]
    by (simp add: consistent_def)
  show ?thesis
  proof (cases "find (\<lambda>n. raw_event_id n = re_id re) (normalized_events (current this))")
    case None
    with f show ?thesis by (simp add: checkDuplicate_def stored_canonical_def)
  next
    case (Some n)
    then have "n \<in> set (normalized_events (current this))"
      by (auto simp: find_Some_iff)
    with assms(1) have "ne_id n \<noteq> 0" by (auto simp: consistent_def)
    with f Some show ?thesis by (simp add: checkDuplicate_def stored_canonical_def)
  qed
qed

text \<open>
  Claim C5. When a raw event with the fingerprint of the request is stored, the result
  is the idempotent success (status 200) with the receipt time of that raw event and the
  canonical data stored for it, if any; the tables of raw, normalized and failed events
  are left as they were.
\<close>

theorem duplicate_returns_stored_outcome:
  assumes "consistent (current this)"
    and "re \<in> set (raw_events (current this))"
    and "event_hash re = generateEventHash rawEvent"
  shows "fst (ingestEvent host now this rawEvent simulateFailure)
           = Duplicate (generateEventHash rawEvent) (received_at re) (stored_canonical (current this) re)
       \<and> status_code (fst (ingestEvent host now this rawEvent simulateFailure)) = 200
       \<and> succeeded (fst (ingestEvent host now this rawEvent simulateFailure))
       \<and> raw_events (current (snd (ingestEvent host now this rawEvent simulateFailure)))
           = raw_events (current this)
       \<and> normalized_events (current (snd (ingestEvent host now this rawEvent simulateFailure)))
           = normalized_events (current this)
       \<and> failed_events (current (snd (ingestEvent host now this rawEvent simulateFailure)))
           = failed_events (current this)"
proof -
  obtain dup where "checkDuplicate this (generateEventHash rawEvent) = Some dup"
    "firstSeenAt dup = received_at re" "dup_data dup = stored_canonical (current this) re"
    using checkDuplicate_Some[OF assms] by blast
  then show ?thesis by (simp add: ingestEvent_def Let_def)
qed

text \<open>
  Claim C10. When a raw event with the fingerprint is stored and no normalized event
  refers to it, the result is the duplicate result with \<^verbatim>\<open>data\<close> \<^verbatim>\<open>null\<close>, and no
  normalized event is created: the payload is not processed again.
\<close>

theorem raw_without_normalized_is_duplicate:
  assumes "consistent (current this)"
    and "re \<in> set (raw_events (current this))"
    and "event_hash re = generateEventHash rawEvent"
    and "\<forall>n \<in> set (normalized_events (current this)). raw_event_id n \<noteq> re_id re"
  shows "fst (ingestEvent host now this rawEvent simulateFailure)
           = Duplicate (generateEventHash rawEvent) (received_at re) None
       \<and> normalized_events (current (snd (ingestEvent host now this rawEvent simulateFailure)))
           = normalized_events (current this)"
proof -
  obtain dup where "checkDuplicate this (generateEventHash rawEvent) = Some dup"
    "firstSeenAt dup = received_at re" "dup_data dup = stored_canonical (current this) re"
    using checkDuplicate_Some[OF assms(1-3)] by blast
  moreover have "stored_canonical (current this) re = None"
    using assms(4) by (simp add: stored_canonical_def find_None_iff)
  ultimately show ?thesis by (simp add: ingestEvent_def Let_def)
qed

subsection \<open>Ingestion of an accepted payload\<close>

lemma normalize_success_data:
  "success (normalize_event host now rawEvent) \<Longrightarrow> \<exists>c. data (normalize_event host now rawEvent) = Some c"
  by (auto simp: normalize_event_def Let_def split: option.splits if_splits)

lemma normalize_data_amount:
  assumes "data (normalize_event host now rawEvent) = Some c"
  shows "success (normalize_event host now rawEvent)"
    and "parseNumber (extractField (payload_of rawEvent) ''amount'') = Some (amount c)"
  using assms by (auto simp: normalize_event_def Let_def split: option.splits if_splits)

lemma parseNumber_not_NaN: "parseNumber v = Some n \<Longrightarrow> n \<noteq> NaN"
  by (auto simp: parseNumber_def Let_def split: json.splits if_splits)

lemma persist_fresh:
  assumes "\<forall>r \<in> set (raw_events (current this)). event_hash r \<noteq> h"
  shows "persist sf now h raw c this =
     (if sf then (Inl (Error ''Simulated database failure''),
                  snd (storeRawEvent this now h raw))
      else (Inr (raw_seq (current this) + 1, normalized_seq (current this) + 1),
            snd (storeNormalizedEvent (snd (storeRawEvent this now h raw))
                   (raw_seq (current this) + 1) c)))"
  using assms
  by (simp add: persist_def storeRawEvent_def insert_raw_event_def storeNormalizedEvent_def
        insert_normalized_event_def Let_def)

lemma processTransaction_commits:
  assumes "\<forall>r \<in> set (raw_events (current this)). event_hash r \<noteq> h"
  shows "\<exists>this'. processTransaction False now this h raw c
            = (Inr (raw_seq (current this) + 1, normalized_seq (current this) + 1), this')
    \<and> raw_events (current this') = raw_events (current this)
          @ [\<lparr>re_id = raw_seq (current this) + 1, event_hash = h,
              raw_data = JSON_stringify raw, received_at = now\<rparr>]
    \<and> normalized_events (current this') = normalized_events (current this)
          @ [\<lparr>client_id = client_id c, metric = metric c, amount = amount c,
              timestamp = timestamp c, ne_id = normalized_seq (current this) + 1,
              raw_event_id = raw_seq (current this) + 1, status = ''processed''\<rparr>]
    \<and> failed_events (current this') = failed_events (current this)
    \<and> raw_seq (current this') = raw_seq (current this) + 1"
proof -
  let ?d = "exec_BEGIN (this\<lparr>inTransaction := True\<rparr>)"
  have "\<forall>r \<in> set (raw_events (current ?d)). event_hash r \<noteq> h"
    using assms by (simp add: exec_BEGIN_def)
  from persist_fresh[OF this, of False now raw c] show ?thesis
    by (simp add: processTransaction_def transaction_def Let_def exec_BEGIN_def exec_COMMIT_def
          storeRawEvent_def insert_raw_event_def storeNormalizedEvent_def
          insert_normalized_event_def assms)
qed

lemma processTransaction_simulated:
  assumes "\<forall>r \<in> set (raw_events (current this)). event_hash r \<noteq> h"
  shows "\<exists>this'. processTransaction True now this h raw c
            = (Inl (Error ''Simulated database failure''), this')
    \<and> current this' = current this"
proof -
  let ?d = "exec_BEGIN (this\<lparr>inTransaction := True\<rparr>)"
  have "\<forall>r \<in> set (raw_events (current ?d)). event_hash r \<noteq> h"
    using assms by (simp add: exec_BEGIN_def)
  from persist_fresh[OF this, of True now raw c] show ?thesis
    by (simp add: processTransaction_def transaction_def Let_def exec_BEGIN_def exec_ROLLBACK_def
          storeRawEvent_def insert_raw_event_def save_def assms)
qed

lemma ingestEvent_accepts:
  assumes fresh: "\<forall>r \<in> set (raw_events (current this)). event_hash r \<noteq> generateEventHash rawEvent"
    and ok: "data (normalize_event host now rawEvent) = Some c"
    and run: "ingestEvent host now this rawEvent False = (response, this')"
  shows "response = Processed (generateEventHash rawEvent) (raw_seq (current this) + 1)
                      (normalized_seq (current this) + 1) c (warnings (normalize_event host now rawEvent))
    \<and> raw_events (current this') = raw_events (current this)
          @ [\<lparr>re_id = raw_seq (current this) + 1, event_hash = generateEventHash rawEvent,
              raw_data = JSON_stringify rawEvent, received_at = now\<rparr>]
    \<and> normalized_events (current this') = normalized_events (current this)
          @ [\<lparr>client_id = client_id c, metric = metric c, amount = amount c,
              timestamp = timestamp c, ne_id = normalized_seq (current this) + 1,
              raw_event_id = raw_seq (current this) + 1, status = ''processed''\<rparr>]
    \<and> failed_events (current this') = failed_events (current this)
    \<and> raw_seq (current this') = raw_seq (current this) + 1"
proof -
  let ?h = "generateEventHash rawEvent"
  let ?this1 = "logProcessing this ?h ''ingest'' ''started'' None"
  have dup: "checkDuplicate ?this1 ?h = None"
    using fresh by (simp add: checkDuplicate_None)
  have fresh1: "\<forall>r \<in> set (raw_events (current ?this1)). event_hash r \<noteq> ?h"
    using fresh by simp
  from processTransaction_commits[OF fresh1, of now rawEvent c]
  obtain d where d: "processTransaction False now ?this1 ?h rawEvent c
            = (Inr (raw_seq (current this) + 1, normalized_seq (current this) + 1), d)"
    and tabs: "raw_events (current d) = raw_events (current this)
          @ [\<lparr>re_id = raw_seq (current this) + 1, event_hash = ?h,
              raw_data = JSON_stringify rawEvent, received_at = now\<rparr>]"
      "normalized_events (current d) = normalized_events (current this)
          @ [\<lparr>client_id = client_id c, metric = metric c, amount = amount c,
              timestamp = timestamp c, ne_id = normalized_seq (current this) + 1,
              raw_event_id = raw_seq (current this) + 1, status = ''processed''\<rparr>]"
      "failed_events (current d) = failed_events (current this)"
      "raw_seq (current d) = raw_seq (current this) + 1"
    by auto
  have s: "success (normalize_event host now rawEvent)"
    using ok by (rule normalize_data_amount)
  from run dup ok s d have "response = Processed ?h (raw_seq (current this) + 1)
                      (normalized_seq (current this) + 1) c (warnings (normalize_event host now rawEvent))"
    and "this' = logProcessing d ?h ''ingest'' ''success'' (Some [Lit ''Event processed successfully''])"
    by (auto simp: ingestEvent_def Let_def)
  with tabs show ?thesis by simp
qed

lemma ingestEvent_persist_fails:
  assumes fresh: "\<forall>r \<in> set (raw_events (current this)). event_hash r \<noteq> generateEventHash rawEvent"
    and ok: "data (normalize_event host now rawEvent) = Some c"
    and run: "ingestEvent host now this rawEvent True = (response, this')"
  shows "response = DatabaseError ''Simulated database failure'' (generateEventHash rawEvent)
    \<and> raw_events (current this') = raw_events (current this)
          @ [\<lparr>re_id = raw_seq (current this) + 1, event_hash = generateEventHash rawEvent,
              raw_data = JSON_stringify rawEvent, received_at = now\<rparr>]
    \<and> normalized_events (current this') = normalized_events (current this)
    \<and> failed_events (current this') = failed_events (current this)
          @ [\<lparr>fe_id = failed_seq (current this) + 1,
              fe_raw_event_id = Some (raw_seq (current this) + 1),
              fe_event_hash = generateEventHash rawEvent,
              fe_raw_data = JSON_stringify rawEvent,
              error_message = [Lit ''Simulated database failure''],
              error_type = ''persistence_error''\<rparr>]
    \<and> raw_seq (current this') = raw_seq (current this) + 1"
proof -
  let ?h = "generateEventHash rawEvent"
  let ?this1 = "logProcessing this ?h ''ingest'' ''started'' None"
  have dup: "checkDuplicate ?this1 ?h = None"
    using fresh by (simp add: checkDuplicate_None)
  have fresh1: "\<forall>r \<in> set (raw_events (current ?this1)). event_hash r \<noteq> ?h"
    using fresh by simp
  from processTransaction_simulated[OF fresh1, of now rawEvent c]
  obtain d where d: "processTransaction True now ?this1 ?h rawEvent c
            = (Inl (Error ''Simulated database failure''), d)"
    and cur: "current d = current ?this1"
    by auto
  let ?this3 = "logProcessing d ?h ''persist'' ''failed'' (Some [Lit ''Simulated database failure''])"
  have fresh3: "\<forall>r \<in> set (raw_events (current ?this3)). event_hash r \<noteq> ?h"
    using fresh cur by simp
  from record_failure_fresh[OF fresh3, of now rawEvent "[Lit ''Simulated database failure'']"
         "''persistence_error''"]
  obtain d4 where d4: "record_failure ?this3 now ?h rawEvent [Lit ''Simulated database failure'']
                         ''persistence_error'' = (Inr (), d4)"
    and tabs: "raw_events (current d4) = raw_events (current this)
          @ [\<lparr>re_id = raw_seq (current this) + 1, event_hash = ?h,
              raw_data = JSON_stringify rawEvent, received_at = now\<rparr>]"
      "failed_events (current d4) = failed_events (current this)
          @ [\<lparr>fe_id = failed_seq (current this) + 1,
              fe_raw_event_id = Some (raw_seq (current this) + 1), fe_event_hash = ?h,
              fe_raw_data = JSON_stringify rawEvent,
              error_message = [Lit ''Simulated database failure''],
              error_type = ''persistence_error''\<rparr>]"
      "normalized_events (current d4) = normalized_events (current this)"
    using cur by auto
  have seq: "raw_seq (current d4) = raw_seq (current this) + 1"
    using d4 fresh3 cur
    by (auto simp: record_failure_def storeRawEvent_def insert_raw_event_def storeFailedEvent_def
          insert_failed_event_def)
  have s: "success (normalize_event host now rawEvent)"
    using ok by (rule normalize_data_amount)
  from run dup ok s d d4 have "response = DatabaseError ''Simulated database failure'' ?h"
    and "this' = d4"
    by (auto simp: ingestEvent_def Let_def)
  with tabs seq show ?thesis by simp
qed

subsection \<open>What every ingestion preserves\<close>

lemma checkDuplicate_Some_any:
  assumes "\<exists>r \<in> set (raw_events (current this)). event_hash r = h"
  shows "\<exists>dup. checkDuplicate this h = Some dup"
proof -
  from assms have "find (\<lambda>re. event_hash re = h) (raw_events (current this)) \<noteq> None"
    by (auto simp: find_None_iff)
  then show ?thesis by (auto simp: checkDuplicate_def Let_def)
qed

lemma ingestEvent_known:
  assumes known: "\<exists>r \<in> set (raw_events (current this)). event_hash r = generateEventHash rawEvent"
    and run: "ingestEvent host now this rawEvent simulateFailure = (response, this')"
  shows "raw_events (current this') = raw_events (current this)
       \<and> normalized_events (current this') = normalized_events (current this)
       \<and> failed_events (current this') = failed_events (current this)
       \<and> raw_seq (current this') = raw_seq (current this)
       \<and> (\<exists>t d. response = Duplicate (generateEventHash rawEvent) t d)"
proof -
  let ?h = "generateEventHash rawEvent"
  let ?this1 = "logProcessing this ?h ''ingest'' ''started'' None"
  from checkDuplicate_Some_any[OF known] obtain dup where "checkDuplicate ?this1 ?h = Some dup"
    by auto
  with run show ?thesis by (auto simp: ingestEvent_def Let_def)
qed

lemma ingestEvent_rejects_seq:
  assumes fresh: "\<forall>r \<in> set (raw_events (current this)). event_hash r \<noteq> generateEventHash rawEvent"
    and fails: "\<not> success (normalize_event host now rawEvent)"
    and run: "ingestEvent host now this rawEvent simulateFailure = (response, this')"
  shows "raw_seq (current this') = raw_seq (current this) + 1"
proof -
  let ?h = "generateEventHash rawEvent"
  let ?this1 = "logProcessing this ?h ''ingest'' ''started'' None"
  have dup: "checkDuplicate ?this1 ?h = None"
    using fresh by (simp add: checkDuplicate_None)
  from run dup fails fresh show ?thesis
    by (auto simp: ingestEvent_def Let_def record_failure_def storeRawEvent_def
          insert_raw_event_def storeFailedEvent_def insert_failed_event_def)
qed

lemma consistent_raw_added:
  assumes "consistent t"
    and "\<forall>r \<in> set (raw_events t). event_hash r \<noteq> h"
    and "raw_events t' = raw_events t
           @ [\<lparr>re_id = raw_seq t + 1, event_hash = h, raw_data = d, received_at = now\<rparr>]"
    and "raw_seq t' = raw_seq t + 1"
    and "normalized_events t' = normalized_events t"
  shows "consistent t'"
  using assms unfolding consistent_def by (auto simp: image_iff)

lemma consistent_both_added:
  assumes "consistent t"
    and "\<forall>r \<in> set (raw_events t). event_hash r \<noteq> h"
    and "raw_events t' = raw_events t
           @ [\<lparr>re_id = raw_seq t + 1, event_hash = h, raw_data = d, received_at = now\<rparr>]"
    and "raw_seq t' = raw_seq t + 1"
    and "normalized_events t' = normalized_events t
           @ [\<lparr>client_id = c1, metric = c2, amount = c3, timestamp = c4, ne_id = k + 1,
               raw_event_id = raw_seq t + 1, status = st\<rparr>]"
  shows "consistent t'"
proof -
  have new: "raw_seq t + 1 \<notin> raw_event_id ` set (normalized_events t)"
  proof
    assume "raw_seq t + 1 \<in> raw_event_id ` set (normalized_events t)"
    then obtain n where "n \<in> set (normalized_events t)" "raw_event_id n = raw_seq t + 1"
      by auto
    with assms(1) obtain r where "r \<in> set (raw_events t)" "re_id r = raw_seq t + 1"
      unfolding consistent_def by metis
    with assms(1) show False unfolding consistent_def by fastforce
  qed
  have 1: "\<forall>r \<in> set (raw_events t'). 0 < re_id r \<and> re_id r \<le> raw_seq t'"
    using assms(1) unfolding consistent_def assms(3,4) by auto
  have 2: "distinct (map event_hash (raw_events t'))"
    using assms(1,2) unfolding consistent_def assms(3) by auto
  have 3: "\<forall>n \<in> set (normalized_events t').
            0 < ne_id n \<and> (\<exists>r \<in> set (raw_events t'). re_id r = raw_event_id n)"
    using assms(1) unfolding consistent_def assms(3,5) by auto
  have 4: "distinct (map raw_event_id (normalized_events t'))"
    using assms(1) new unfolding consistent_def assms(5) by simp
  from 1 2 3 4 show ?thesis unfolding consistent_def by blast
qed

lemma consistent_ingestEvent:
  assumes c: "consistent (current this)"
    and run: "ingestEvent host now this rawEvent simulateFailure = (response, this')"
  shows "consistent (current this')"
proof (cases "\<exists>r \<in> set (raw_events (current this)). event_hash r = generateEventHash rawEvent")
  case True
  from ingestEvent_known[OF True run] c show ?thesis by (simp add: consistent_def)
next
  case False
  then have fresh: "\<forall>r \<in> set (raw_events (current this)). event_hash r \<noteq> generateEventHash rawEvent"
    by simp
  show ?thesis
  proof (cases "data (normalize_event host now rawEvent)")
    case None
    then have f: "\<not> success (normalize_event host now rawEvent)"
      using normalize_success_data[of host now rawEvent] by auto
    from ingestEvent_rejects[OF fresh f run] ingestEvent_rejects_seq[OF fresh f run]
    show ?thesis using consistent_raw_added[OF c fresh] by blast
  next
    case (Some d)
    show ?thesis
    proof (cases simulateFailure)
      case True
      with run have "ingestEvent host now this rawEvent True = (response, this')" by simp
      from ingestEvent_persist_fails[OF fresh Some this]
      show ?thesis using consistent_raw_added[OF c fresh] by blast
    next
      case False
      with run have "ingestEvent host now this rawEvent False = (response, this')" by simp
      from ingestEvent_accepts[OF fresh Some this]
      show ?thesis using consistent_both_added[OF c fresh] by blast
    qed
  qed
qed

lemma consistent_initial: "consistent (current initial)"
  by (simp add: consistent_def initial_def empty_tables_def)

lemma ingestEvent_amounts:
  assumes a: "amounts_are_numbers (current this)"
    and run: "ingestEvent host now this rawEvent simulateFailure = (response, this')"
  shows "amounts_are_numbers (current this')"
proof (cases "\<exists>r \<in> set (raw_events (current this)). event_hash r = generateEventHash rawEvent")
  case True
  from ingestEvent_known[OF True run] a show ?thesis by (simp add: amounts_are_numbers_def)
next
  case False
  then have fresh: "\<forall>r \<in> set (raw_events (current this)). event_hash r \<noteq> generateEventHash rawEvent"
    by simp
  show ?thesis
  proof (cases "data (normalize_event host now rawEvent)")
    case None
    then have f: "\<not> success (normalize_event host now rawEvent)"
      using normalize_success_data[of host now rawEvent] by auto
    from ingestEvent_rejects[OF fresh f run] a
    show ?thesis by (simp add: amounts_are_numbers_def)
  next
    case (Some d)
    from normalize_data_amount(2)[OF Some] have n: "amount d \<noteq> NaN"
      by (rule parseNumber_not_NaN)
    show ?thesis
    proof (cases simulateFailure)
      case True
      with run have "ingestEvent host now this rawEvent True = (response, this')" by simp
      from ingestEvent_persist_fails[OF fresh Some this] a
      show ?thesis by (simp add: amounts_are_numbers_def)
    next
      case False
      with run have "ingestEvent host now this rawEvent False = (response, this')" by simp
      from ingestEvent_accepts[OF fresh Some this] a n
      show ?thesis by (simp add: amounts_are_numbers_def)
    qed
  qed
qed

lemma ingestEvent_Processed:
  assumes run: "ingestEvent host now this rawEvent simulateFailure = (Processed h rid nid c w, this')"
  shows "data (normalize_event host now rawEvent) = Some c
       \<and> (\<forall>r \<in> set (raw_events (current this)). event_hash r \<noteq> generateEventHash rawEvent)
       \<and> \<not> simulateFailure"
proof (cases "\<exists>r \<in> set (raw_events (current this)). event_hash r = generateEventHash rawEvent")
  case True
  from ingestEvent_known[OF True run] show ?thesis by auto
next
  case False
  then have fresh: "\<forall>r \<in> set (raw_events (current this)). event_hash r \<noteq> generateEventHash rawEvent"
    by simp
  show ?thesis
  proof (cases "data (normalize_event host now rawEvent)")
    case None
    then have f: "\<not> success (normalize_event host now rawEvent)"
      using normalize_success_data[of host now rawEvent] by auto
    from ingestEvent_rejects[OF fresh f run] show ?thesis by simp
  next
    case (Some d)
    show ?thesis
    proof (cases simulateFailure)
      case True
      with run have "ingestEvent host now this rawEvent True = (Processed h rid nid c w, this')" by simp
      from ingestEvent_persist_fails[OF fresh Some this] show ?thesis by simp
    next
      case False
      with run have "ingestEvent host now this rawEvent False = (Processed h rid nid c w, this')" by simp
      from ingestEvent_accepts[OF fresh Some this] Some fresh False show ?thesis by simp
    qed
  qed
qed

subsection \<open>Amounts and timestamps\<close>

lemmas pad_defs = pad2_def pad3_def pad4_def pad6_def digit_def

lemmas number_defs = parseNumber_def parseFloat_def unsigned_literal_def exponent_part_def
  digits_value_def scale10_def is_digit_def negate_def js_trim_def is_space_def

lemmas date_defs = parseTimestamp_def new_Date_def utc_midnight_def matches_ymd_def matches_dmy_def
  toISOString_def civil_from_days_def days_from_civil_def days_in_month_def pad_defs
  is_digit_def digits_value_def

lemmas field_defs = extractField_def fieldMappings_def payload_of_def to_String_def
  knownFields_def payloadKnownFields_def

lemma parseNumber_separators: "parseNumber (JStr ''1,200.50'') = Some (Finite 1200.5)"
  by (simp add: number_defs)


lemma normalize_amount_event:
  "normalize_event host now amount_event =
     \<lparr>success = True,
      data = Some \<lparr>client_id = [Lit ''client_A''], metric = [Lit ''revenue''],
                   amount = Finite 1200.5, timestamp = toISOString now\<rparr>,
      errors = [],
      warnings = [ [Lit ''Amount was provided as string '', Lit [CHR 0x22], Lit ''1,200.50'',
                   Lit [CHR 0x22], Lit '', converted to '', Subst (JNum (Finite 1200.5))],
                  [Lit ''Missing timestamp field, using current time as fallback'']]\<rparr>"
  by (simp add: normalize_event_def amount_event_def field_defs parseNumber_separators)



lemma parseTimestamp_rejected_slash_date:
  "host (JStr ''2024/01/01'') = None \<Longrightarrow>
   parseTimestamp host (JStr ''2024/01/01'') = Some ''2024-01-01T00:00:00.000Z''"
  by (simp add: date_defs cong: let_cong)

lemma parseTimestamp_local_slash_date:
  "parseTimestamp (local_time_host 330) (JStr ''2024/01/01'') = Some ''2023-12-31T18:30:00.000Z''"
  by (simp add: date_defs local_time_host_def cong: let_cong)

lemma parseTimestamp_utc_slash_date:
  "parseTimestamp (local_time_host 0) (JStr ''2024/01/01'') = Some ''2024-01-01T00:00:00.000Z''"
  by (simp add: date_defs local_time_host_def cong: let_cong)

lemma parseTimestamp_not_a_date:
  "host (JStr ''not-a-date'') = None \<Longrightarrow> parseTimestamp host (JStr ''not-a-date'') = None"
  by (simp add: date_defs cong: let_cong)

lemma normalize_bad_timestamp:
  assumes "rawEvent \<noteq> JNull"
    and "truthy (extractField (payload_of rawEvent) ''timestamp'')"
    and "parseTimestamp host (extractField (payload_of rawEvent) ''timestamp'') = None"
  shows "\<not> success (normalize_event host now rawEvent)"
    and "[Lit ''Invalid timestamp format: ''] @ to_String (extractField (payload_of rawEvent) ''timestamp'')
         \<in> set (errors (normalize_event host now rawEvent))"
    and "[Lit ''Using current time due to invalid timestamp'']
         \<in> set (warnings (normalize_event host now rawEvent))"
  using assms by (simp_all add: normalize_event_def Let_def split: option.splits)

lemma normalize_example_local:
  "normalize_event (local_time_host 330) now example_event =
     \<lparr>success = True,
      data = Some \<lparr>client_id = [Lit ''client_A''], metric = [Lit ''revenue''],
                   amount = Finite 1200, timestamp = ''2023-12-31T18:30:00.000Z''\<rparr>,
      errors = [],
      warnings = [ [Lit ''Amount was provided as string '', Lit [CHR 0x22], Lit ''1200'',
                   Lit [CHR 0x22], Lit '', converted to '', Subst (JNum (Finite 1200))],
                  [Lit ''Timestamp normalized from '', Lit [CHR 0x22], Lit ''2024/01/01'',
                   Lit [CHR 0x22], Lit '' to '', Lit [CHR 0x22],
                   Lit ''2023-12-31T18:30:00.000Z'', Lit [CHR 0x22]]]\<rparr>"
proof -
  have n: "parseNumber (JStr ''1200'') = Some (Finite 1200)"
    by (simp add: number_defs)
  show ?thesis
    by (simp add: normalize_event_def example_event_def field_defs n parseTimestamp_local_slash_date
          cong: let_cong) (simp add: Let_def)?
qed

lemma normalize_example_rejected:
  assumes "host (JStr ''2024/01/01'') = None"
  shows "normalize_event host now example_event =
     \<lparr>success = True,
      data = Some \<lparr>client_id = [Lit ''client_A''], metric = [Lit ''revenue''],
                   amount = Finite 1200, timestamp = ''2024-01-01T00:00:00.000Z''\<rparr>,
      errors = [],
      warnings = [ [Lit ''Amount was provided as string '', Lit [CHR 0x22], Lit ''1200'',
                   Lit [CHR 0x22], Lit '', converted to '', Subst (JNum (Finite 1200))],
                  [Lit ''Timestamp normalized from '', Lit [CHR 0x22], Lit ''2024/01/01'',
                   Lit [CHR 0x22], Lit '' to '', Lit [CHR 0x22],
                   Lit ''2024-01-01T00:00:00.000Z'', Lit [CHR 0x22]]]\<rparr>"
proof -
  have n: "parseNumber (JStr ''1200'') = Some (Finite 1200)"
    by (simp add: number_defs)
  have t: "parseTimestamp host (JStr ''2024/01/01'') = Some ''2024-01-01T00:00:00.000Z''"
    using assms by (rule parseTimestamp_rejected_slash_date)
  show ?thesis
    by (simp add: normalize_event_def example_event_def field_defs n t cong: let_cong)
       (simp add: Let_def)?
qed

lemma normalize_bad_date_event:
  assumes "host (JStr ''not-a-date'') = None"
  shows "normalize_event host now bad_date_event =
     \<lparr>success = False, data = None,
      errors = [ [Lit ''Invalid timestamp format: '', Lit ''not-a-date'']],
      warnings = [ [Lit ''Using current time due to invalid timestamp'']]\<rparr>"
proof -
  have n: "parseNumber (JNum (Finite 10)) = Some (Finite 10)"
    by (simp add: parseNumber_def)
  have t: "parseTimestamp host (JStr ''not-a-date'') = None"
    using assms by (rule parseTimestamp_not_a_date)
  show ?thesis
    by (simp add: normalize_event_def bad_date_event_def field_defs n t cong: let_cong)
       (simp add: Let_def)?
qed

lemma normalize_refund_event:
  "normalize_event host now refund_event =
     \<lparr>success = True,
      data = Some \<lparr>client_id = [Lit ''client_A''], metric = [Lit ''refund''],
                   amount = Finite (- 5), timestamp = toISOString now\<rparr>,
      errors = [],
      warnings = [ [Lit ''Missing timestamp field, using current time as fallback'']]\<rparr>"
  by (simp add: normalize_event_def refund_event_def field_defs parseNumber_def cong: let_cong)
    (simp add: Let_def)?

subsection \<open>The hasher does not resolve aliases\<close>

lemma alias_skipped:
  assumes "(field, names) \<in> set fieldMappings" "key \<in> set names" "skipped_key key"
  shows "key = ''created_at''"
  using assms by (auto simp: fieldMappings_def skipped_key_def)

lemma normalized_entries:
  "normalizeForHashing (JObj kvs) = JObj es \<Longrightarrow>
   set es = (\<lambda>(key, v). (key, normalizeForHashing v)) ` {(key, v) \<in> set kvs. \<not> skipped_key key}"
  by auto

lemma normalized_keys:
  assumes "normalizeForHashing (JObj kvs) = JObj es"
  shows "fst ` set es = {key \<in> fst ` set kvs. \<not> skipped_key key}"
proof -
  have "fst ` set es = fst ` {(key, v) \<in> set kvs. \<not> skipped_key key}"
    unfolding normalized_entries[OF assms] image_image by (simp add: case_prod_unfold)
  also have "\<dots> = {key \<in> fst ` set kvs. \<not> skipped_key key}"
  proof (intro set_eqI iffI)
    fix k
    assume "k \<in> fst ` {(key, v) \<in> set kvs. \<not> skipped_key key}"
    then obtain x where x: "x \<in> {(key, v) \<in> set kvs. \<not> skipped_key key}" "k = fst x"
      by (rule imageE)
    obtain a b where ab: "x = (a, b)" by (rule prod.exhaust)
    from x ab have "(k, b) \<in> set kvs" "\<not> skipped_key k" by simp_all
    then have "k \<in> fst ` set kvs" "\<not> skipped_key k"
      by (simp_all add: image_iff) (rule bexI[of _ "(k, b)"], simp_all)
    then show "k \<in> {key \<in> fst ` set kvs. \<not> skipped_key key}" by simp
  next
    fix k
    assume "k \<in> {key \<in> fst ` set kvs. \<not> skipped_key key}"
    then have m: "k \<in> fst ` set kvs" and n: "\<not> skipped_key k" by simp_all
    from m obtain x where x: "x \<in> set kvs" "k = fst x" by (rule imageE)
    obtain a b where ab: "x = (a, b)" by (rule prod.exhaust)
    from x ab n have "(k, b) \<in> {(key, v) \<in> set kvs. \<not> skipped_key key}" by simp
    then have "fst (k, b) \<in> fst ` {(key, v) \<in> set kvs. \<not> skipped_key key}"
      by (rule imageI)
    then show "k \<in> fst ` {(key, v) \<in> set kvs. \<not> skipped_key key}" by simp
  qed
  finally show ?thesis .
qed

lemma renamed_key_differs:
  assumes "\<not> skipped_key key" "key \<noteq> key'" "key \<notin> fst ` set (kvs1 @ kvs2)"
  shows "normalizeForHashing (JObj (kvs1 @ (key, v) # kvs2))
           \<noteq> normalizeForHashing (JObj (kvs1 @ (key', v') # kvs2))"
proof
  assume eq: "normalizeForHashing (JObj (kvs1 @ (key, v) # kvs2))
            = normalizeForHashing (JObj (kvs1 @ (key', v') # kvs2))"
  obtain es where es: "normalizeForHashing (JObj (kvs1 @ (key, v) # kvs2)) = JObj es"
    by simp
  from normalized_keys[OF es] assms(1) have "key \<in> fst ` set es" by force
  moreover from es eq have "normalizeForHashing (JObj (kvs1 @ (key', v') # kvs2)) = JObj es"
    by simp
  from normalized_keys[OF this] assms(2,3) have "key \<notin> fst ` set es" by force
  ultimately show False by simp
qed

lemma payload_differs:
  assumes "normalizeForHashing p \<noteq> normalizeForHashing q"
    and "''payload'' \<notin> fst ` set (kvs1 @ kvs2)"
  shows "normalizeForHashing (JObj (kvs1 @ (''payload'', p) # kvs2))
           \<noteq> normalizeForHashing (JObj (kvs1 @ (''payload'', q) # kvs2))"
proof
  assume eq: "normalizeForHashing (JObj (kvs1 @ (''payload'', p) # kvs2))
            = normalizeForHashing (JObj (kvs1 @ (''payload'', q) # kvs2))"
  obtain es where es: "normalizeForHashing (JObj (kvs1 @ (''payload'', p) # kvs2)) = JObj es"
    by simp
  have keep: "\<not> skipped_key ''payload''" by (simp add: skipped_key_def)
  from normalized_entries[OF es] keep have "(''payload'', normalizeForHashing p) \<in> set es"
    by force
  moreover from es eq have "normalizeForHashing (JObj (kvs1 @ (''payload'', q) # kvs2)) = JObj es"
    by simp
  from normalized_entries[OF this]
  have "set es = (\<lambda>(key, v). (key, normalizeForHashing v))
                   ` {(key, v) \<in> set (kvs1 @ (''payload'', q) # kvs2). \<not> skipped_key key}" .
  ultimately have "(''payload'', normalizeForHashing p)
      \<in> (\<lambda>(key, v). (key, normalizeForHashing v))
           ` {(key, v) \<in> set (kvs1 @ (''payload'', q) # kvs2). \<not> skipped_key key}"
    by simp
  then obtain x where x: "x \<in> {(key, v) \<in> set (kvs1 @ (''payload'', q) # kvs2). \<not> skipped_key key}"
    "(''payload'', normalizeForHashing p) = (\<lambda>(key, v). (key, normalizeForHashing v)) x"
    by (rule imageE)
  obtain k v where kv: "x = (k, v)" by (cases x)
  from x kv have k: "k = ''payload''" and v: "normalizeForHashing v = normalizeForHashing p"
    and m: "(k, v) \<in> set (kvs1 @ (''payload'', q) # kvs2)"
    by simp_all
  show False
  proof (cases "v = q")
    case True
    with v assms(1) show False by simp
  next
    case False
    with m k have "(''payload'', v) \<in> set (kvs1 @ kvs2)" by auto
    then have "''payload'' \<in> fst ` set (kvs1 @ kvs2)" by (rule image_eqI[rotated]) simp
    with assms(2) show False by simp
  qed
qed

lemma alias_choice_normalize:
  "alias_choice a b \<Longrightarrow> normalizeForHashing a \<noteq> normalizeForHashing b"
proof (induction rule: alias_choice.induct)
  case (renamed field names key key' kvs1 kvs2 v)
  show ?case
  proof (cases "skipped_key key")
    case False
    from renamed_key_differs[OF False renamed(4,5)] show ?thesis .
  next
    case True
    with renamed have "key = ''created_at''" by (auto dest: alias_skipped)
    with renamed have "\<not> skipped_key key'" by (auto dest: alias_skipped)
    from renamed_key_differs[OF this renamed(4)[symmetric] renamed(6), of v v]
    show ?thesis by simp
  qed
next
  case (in_payload p q kvs1 kvs2)
  from payload_differs[OF in_payload.IH in_payload.hyps(2)] show ?case .
qed

lemma alias_choice_amount_value: "alias_choice amount_event value_event"
proof -
  have "alias_choice (JObj ([(''metric'', JStr ''revenue'')] @ (''amount'', JStr ''1,200.50'') # []))
                     (JObj ([(''metric'', JStr ''revenue'')] @ (''value'', JStr ''1,200.50'') # []))"
    by (rule alias_choice.renamed[where field = "''amount''"
              and names = "[''amount'', ''value'', ''quantity'', ''total'', ''sum'']"])
       (simp_all add: fieldMappings_def)
  then have "alias_choice
      (JObj ([(''source'', JStr ''client_A'')]
             @ (''payload'', JObj ([(''metric'', JStr ''revenue'')] @ (''amount'', JStr ''1,200.50'') # [])) # []))
      (JObj ([(''source'', JStr ''client_A'')]
             @ (''payload'', JObj ([(''metric'', JStr ''revenue'')] @ (''value'', JStr ''1,200.50'') # [])) # []))"
    by (rule alias_choice.in_payload) simp
  then show ?thesis by (simp add: amount_event_def value_event_def)
qed

lemma alias_choice_source_sender: "alias_choice amount_event sender_event"
proof -
  have "alias_choice
      (JObj ([] @ (''source'', JStr ''client_A'')
             # [(''payload'', JObj [(''metric'', JStr ''revenue''), (''amount'', JStr ''1,200.50'')])]))
      (JObj ([] @ (''sender'', JStr ''client_A'')
             # [(''payload'', JObj [(''metric'', JStr ''revenue''), (''amount'', JStr ''1,200.50'')])]))"
    by (rule alias_choice.renamed[where field = "''client_id''"
              and names = "[''source'', ''client'', ''client_id'', ''clientId'', ''sender'']"])
       (simp_all add: fieldMappings_def)
  then show ?thesis by (simp add: amount_event_def sender_event_def)
qed

lemma normalize_value_event:
  "normalize_event host now value_event =
     \<lparr>success = True,
      data = Some \<lparr>client_id = [Lit ''client_A''], metric = [Lit ''revenue''],
                   amount = Finite 1200.5, timestamp = toISOString now\<rparr>,
      errors = [],
      warnings = [ [Lit ''Amount was provided as string '', Lit [CHR 0x22], Lit ''1,200.50'',
                   Lit [CHR 0x22], Lit '', converted to '', Subst (JNum (Finite 1200.5))],
                  [Lit ''Missing timestamp field, using current time as fallback'']]\<rparr>"
  by (simp add: normalize_event_def value_event_def field_defs parseNumber_separators)

text \<open>
  Claim C4 as stated fails: \<open>amount_event\<close> and \<open>value_event\<close> differ only in the alias
  that names the amount and normalize to the same canonical record, yet their
  fingerprints differ. The hasher keeps key names as they are.
\<close>

theorem alias_fingerprints_differ:
  "data (normalize_event strict_host 0 amount_event) = data (normalize_event strict_host 0 value_event)
   \<and> generateEventHash amount_event \<noteq> generateEventHash value_event"
  using alias_choice_normalize[OF alias_choice_amount_value]
  by (simp add: generateEventHash_def normalize_value_event normalize_amount_event)

text \<open>
  Claim C4, amended. Two payloads that differ only in which recognized alias names a
  canonical field have different fingerprints: the hasher does not resolve aliases.
\<close>

theorem alias_choice_changes_fingerprint: "alias_choice a b \<Longrightarrow> generateEventHash a \<noteq> generateEventHash b"
  by (simp add: generateEventHash_def alias_choice_normalize)

theorem alias_choice_changes_fingerprint_witness:
  "alias_choice amount_event sender_event
   \<and> generateEventHash amount_event \<noteq> generateEventHash sender_event"
  using alias_choice_changes_fingerprint[OF alias_choice_source_sender] alias_choice_source_sender by simp

subsection \<open>Resubmission, stored amounts, local time\<close>

lemma ingestEvent_found:
  assumes "checkDuplicate this (generateEventHash rawEvent) = Some dup"
  shows "ingestEvent host now this rawEvent simulateFailure =
     (Duplicate (generateEventHash rawEvent) (firstSeenAt dup) (dup_data dup),
      logProcessing (logProcessing this (generateEventHash rawEvent) ''ingest'' ''started'' None)
        (generateEventHash rawEvent) ''ingest'' ''duplicate'' (Some [Lit ''Event already processed'']))"
  using assms by (simp add: ingestEvent_def Let_def)

lemma fresh_initial: "\<forall>r \<in> set (raw_events (current initial)). event_hash r \<noteq> h"
  by (simp add: initial_def empty_tables_def)

lemma tables_initial [simp]:
  "raw_events (current initial) = []" "normalized_events (current initial) = []"
  "failed_events (current initial) = []" "raw_seq (current initial) = 0"
  "normalized_seq (current initial) = 0" "failed_seq (current initial) = 0"
  by (simp_all add: initial_def empty_tables_def)

lemma data_example: "data (normalize_event strict_host now example_event) = Some example_canonical"
proof -
  have "strict_host (JStr ''2024/01/01'') = None" by (simp add: strict_host_def)
  then show ?thesis
    by (simp add: normalize_example_rejected[of strict_host now] example_canonical_def)
qed

lemma failed_persist_claims_fingerprint:
  assumes c: "consistent (current this)"
    and fresh: "\<forall>r \<in> set (raw_events (current this)). event_hash r \<noteq> generateEventHash rawEvent"
    and ok: "data (normalize_event host now rawEvent) = Some accepted"
    and run1: "ingestEvent host now this rawEvent True = (r1, d1)"
    and run2: "ingestEvent host' now' d1 rawEvent False = (r2, d2)"
  shows "r1 = DatabaseError ''Simulated database failure'' (generateEventHash rawEvent)
       \<and> r2 = Duplicate (generateEventHash rawEvent) now None
       \<and> normalized_events (current d2) = normalized_events (current this)"
proof -
  let ?h = "generateEventHash rawEvent"
  let ?re = "\<lparr>re_id = raw_seq (current this) + 1, event_hash = ?h,
               raw_data = JSON_stringify rawEvent, received_at = now\<rparr>"
  from ingestEvent_persist_fails[OF fresh ok run1]
  have r1: "r1 = DatabaseError ''Simulated database failure'' ?h"
    and raws: "raw_events (current d1) = raw_events (current this) @ [?re]"
    and norms: "normalized_events (current d1) = normalized_events (current this)"
    by simp_all
  have c1: "consistent (current d1)"
    using c run1 by (rule consistent_ingestEvent)
  have m: "?re \<in> set (raw_events (current d1))" and e: "event_hash ?re = ?h"
    using raws by simp_all
  from checkDuplicate_Some[OF c1 m e] obtain dup where
    dup: "checkDuplicate d1 ?h = Some dup" "firstSeenAt dup = now"
      "dup_data dup = stored_canonical (current d1) ?re"
    by auto
  have "raw_event_id n \<noteq> raw_seq (current this) + 1"
    if "n \<in> set (normalized_events (current this))" for n
  proof -
    from c that obtain r where "r \<in> set (raw_events (current this))" "re_id r = raw_event_id n"
      unfolding consistent_def by metis
    with c show ?thesis unfolding consistent_def by fastforce
  qed
  then have "stored_canonical (current d1) ?re = None"
    using norms by (simp add: stored_canonical_def find_None_iff)
  with dup ingestEvent_found[OF dup(1), of host' now' False] run2 norms r1
  show ?thesis by simp
qed

text \<open>
  Claim C1, on the code. After the persist of \<open>example_event\<close> failed on the injected
  fault (a retryable server error), the raw event stored by the failure handler holds the
  fingerprint; the same event submitted again without the fault is answered as a
  duplicate with no data, and no normalized event exists.
\<close>

theorem resubmission_after_failed_persist:
  "fst (ingestEvent strict_host 0 initial example_event True)
     = DatabaseError ''Simulated database failure'' (generateEventHash example_event)
   \<and> retryable (fst (ingestEvent strict_host 0 initial example_event True))
   \<and> map event_hash (raw_events (current (snd (ingestEvent strict_host 0 initial example_event True))))
       = [generateEventHash example_event]
   \<and> fst (ingestEvent strict_host 1 (snd (ingestEvent strict_host 0 initial example_event True))
              example_event False)
       = Duplicate (generateEventHash example_event) 0 None
   \<and> normalized_events (current (snd (ingestEvent strict_host 1
          (snd (ingestEvent strict_host 0 initial example_event True)) example_event False))) = []"
proof -
  let ?h = "generateEventHash example_event"
  obtain r1 d1 where run1: "ingestEvent strict_host 0 initial example_event True = (r1, d1)"
    by (cases "ingestEvent strict_host 0 initial example_event True")
  from ingestEvent_persist_fails[OF fresh_initial data_example run1]
  have r1: "r1 = DatabaseError ''Simulated database failure'' ?h"
    and raws: "raw_events (current d1)
                 = [\<lparr>re_id = 1, event_hash = ?h, raw_data = JSON_stringify example_event,
                     received_at = 0\<rparr>]"
    and norms: "normalized_events (current d1) = []"
    by simp_all
  have c1: "consistent (current d1)"
    using consistent_initial run1 by (rule consistent_ingestEvent)
  let ?re = "\<lparr>re_id = 1, event_hash = ?h, raw_data = JSON_stringify example_event,
               received_at = 0\<rparr>"
  have "?re \<in> set (raw_events (current d1))" "event_hash ?re = ?h"
    using raws by simp_all
  from checkDuplicate_Some[OF c1 this] obtain dup where
    dup: "checkDuplicate d1 ?h = Some dup" "firstSeenAt dup = 0"
      "dup_data dup = stored_canonical (current d1) ?re"
    by auto
  have "stored_canonical (current d1) ?re = None"
    using norms by (simp add: stored_canonical_def)
  with dup ingestEvent_found[OF dup(1), of strict_host 1 False] norms
  have "fst (ingestEvent strict_host 1 d1 example_event False) = Duplicate ?h 0 None"
    and "normalized_events (current (snd (ingestEvent strict_host 1 d1 example_event False))) = []"
    by simp_all
  with run1 r1 raws show ?thesis by simp
qed

text \<open>
  Claim C9 as stated fails: a refund of \<open>- 5\<close> is accepted and committed, and the stored
  amount is negative.
\<close>

theorem negative_amount_stored:
  "map amount (normalized_events (current (snd (ingestEvent strict_host 0 initial refund_event False))))
     = [Finite (- 5)]
   \<and> \<not> nonnegative (Finite (- 5))"
proof -
  obtain r d where run: "ingestEvent strict_host 0 initial refund_event False = (r, d)"
    by (cases "ingestEvent strict_host 0 initial refund_event False")
  have ok: "data (normalize_event strict_host 0 refund_event)
              = Some \<lparr>client_id = [Lit ''client_A''], metric = [Lit ''refund''],
                      amount = Finite (- 5), timestamp = toISOString 0\<rparr>"
    by (simp add: normalize_refund_event)
  from ingestEvent_accepts[OF fresh_initial ok run] run show ?thesis
    by (simp add: nonnegative_def)
qed

text \<open>
  Claim C9, amended. Every normalized event that the pipeline creates has an amount
  that is a number other than \<^verbatim>\<open>NaN\<close>, of either sign: for every input that normalization
  accepts and the persister commits, the stored amount is the number that \<open>parseNumber\<close>
  returned for the amount field, and that no stored amount is \<^verbatim>\<open>NaN\<close> is preserved by
  every ingestion.
\<close>

theorem stored_amount_is_a_number:
  assumes "amounts_are_numbers (current this)"
    and "ingestEvent host now this rawEvent simulateFailure = (response, this')"
  shows "amounts_are_numbers (current this')
       \<and> (\<forall>h rid nid c w. response = Processed h rid nid c w \<longrightarrow>
             amount c \<noteq> NaN
             \<and> parseNumber (extractField (payload_of rawEvent) ''amount'') = Some (amount c)
             \<and> (\<exists>n \<in> set (normalized_events (current this')).
                   ne_id n = nid \<and> raw_event_id n = rid \<and> amount n = amount c))"
proof (intro conjI allI impI)
  show "amounts_are_numbers (current this')"
    using assms by (rule ingestEvent_amounts)
next
  fix h rid nid c w
  assume p: "response = Processed h rid nid c w"
  with assms(2) have run: "ingestEvent host now this rawEvent simulateFailure
                             = (Processed h rid nid c w, this')" by simp
  from ingestEvent_Processed[OF run]
  have ok: "data (normalize_event host now rawEvent) = Some c"
    and fresh: "\<forall>r \<in> set (raw_events (current this)). event_hash r \<noteq> generateEventHash rawEvent"
    and nf: "\<not> simulateFailure"
    by simp_all
  from normalize_data_amount(2)[OF ok]
  show "parseNumber (extractField (payload_of rawEvent) ''amount'') = Some (amount c)" .
  then show "amount c \<noteq> NaN" by (rule parseNumber_not_NaN)
  from run nf have "ingestEvent host now this rawEvent False = (Processed h rid nid c w, this')"
    by simp
  from ingestEvent_accepts[OF fresh ok this]
  show "\<exists>n \<in> set (normalized_events (current this')).
          ne_id n = nid \<and> raw_event_id n = rid \<and> amount n = amount c"
    by simp
qed

theorem stored_amount_is_a_number_witness:
  "amounts_are_numbers (current initial)
   \<and> amounts_are_numbers (current (snd (ingestEvent strict_host 0 initial refund_event False)))"
proof -
  have a: "amounts_are_numbers (current initial)"
    by (simp add: amounts_are_numbers_def)
  have "ingestEvent strict_host 0 initial refund_event False
          = (fst (ingestEvent strict_host 0 initial refund_event False),
             snd (ingestEvent strict_host 0 initial refund_event False))"
    by simp
  from stored_amount_is_a_number[OF a this] a show ?thesis by simp
qed

text \<open>
  Claim C8, on the code. With a host \<^verbatim>\<open>Date\<close> that reads \<^verbatim>\<open>2024/01/01\<close> as midnight
  local time, in a zone five and a half hours east of UTC, the first attempt
  \<^verbatim>\<open>new Date(value)\<close> succeeds, the branch for \<^verbatim>\<open>YYYY/MM/DD\<close> is not reached, and the
  normalized timestamp is not UTC midnight of 2024-01-01.
\<close>

theorem slash_date_read_in_local_time:
  "map_option timestamp (data (normalize_event (local_time_host 330) 0 example_event))
     = Some ''2023-12-31T18:30:00.000Z''
   \<and> ''2023-12-31T18:30:00.000Z'' \<noteq> ''2024-01-01T00:00:00.000Z''"
  by (simp add: normalize_example_local)


subsection \<open>The theorems at concrete inputs\<close>

theorem equivalent_payloads_same_fingerprint_witness:
  "same_content example_event reordered_event
   \<and> generateEventHash example_event = generateEventHash reordered_event"
proof -
  let ?amount = "(''amount'', JStr ''1200'')"
  let ?time = "(''timestamp'', JStr ''2024/01/01'')"
  let ?payload = "JObj [(''metric'', JStr ''revenue''), ?amount, ?time]"
  let ?payload' = "JObj [?time, ?amount, (''metric'', JStr '' Revenue '')]"
  have "same_content (JStr ''revenue'') (JStr '' revenue '')"
    using same_content.white_space[of "'' ''" "'' ''" "''revenue''"] by (simp add: is_space_def)
  moreover have "same_content (JStr '' revenue '') (JStr '' Revenue '')"
    by (rule same_content.letter_case) (simp add: case_variant_def is_upper_def)
  ultimately have m: "same_content (JStr ''revenue'') (JStr '' Revenue '')"
    by (rule same_content.chain)
  have "same_content ?payload (JObj [(''metric'', JStr '' Revenue ''), ?amount, ?time])"
    using same_content.in_object[OF m, of "[]" "''metric''" "[?amount, ?time]"] by simp
  moreover have "same_content (JObj [(''metric'', JStr '' Revenue ''), ?amount, ?time]) ?payload'"
    by (rule same_content.key_order) simp_all
  ultimately have p: "same_content ?payload ?payload'"
    by (rule same_content.chain)
  have c: "same_content (JStr ''client_A'') (JStr ''CLIENT_A'')"
    by (rule same_content.letter_case) (simp add: case_variant_def is_upper_def)
  have "same_content example_event (JObj [(''source'', JStr ''CLIENT_A''), (''payload'', ?payload)])"
    using same_content.in_object[OF c, of "[]" "''source''" "[(''payload'', ?payload)]"]
    by (simp add: example_event_def)
  moreover have "same_content (JObj [(''source'', JStr ''CLIENT_A''), (''payload'', ?payload)])
                   (JObj [(''source'', JStr ''CLIENT_A''), (''payload'', ?payload')])"
    using same_content.in_object[OF p, of "[(''source'', JStr ''CLIENT_A'')]" "''payload''" "[]"]
    by simp
  ultimately have 1: "same_content example_event
                        (JObj [(''source'', JStr ''CLIENT_A''), (''payload'', ?payload')])"
    by (rule same_content.chain)
  have 2: "same_content (JObj [(''source'', JStr ''CLIENT_A''), (''payload'', ?payload')])
          (JObj [(''id'', JNum (Finite 7)), (''source'', JStr ''CLIENT_A''), (''payload'', ?payload')])"
    using same_content.receipt_key[of "''id''" "[]"
            "[(''source'', JStr ''CLIENT_A''), (''payload'', ?payload')]" "JNum (Finite 7)"]
    by simp
  have 3: "same_content
          (JObj [(''id'', JNum (Finite 7)), (''source'', JStr ''CLIENT_A''), (''payload'', ?payload')])
          reordered_event"
    unfolding reordered_event_def by (rule same_content.key_order) simp_all
  have s: "same_content example_event reordered_event"
    using same_content.chain[OF 1 same_content.chain[OF 2 3]] .
  from equivalent_payloads_same_fingerprint[OF s] s show ?thesis by simp
qed

theorem failed_unit_leaves_storage_unchanged_witness:
  "fst (processTransaction True 0 initial (generateEventHash example_event) example_event
          example_canonical) = Inl (Error ''Simulated database failure'')
   \<and> current (snd (processTransaction True 0 initial (generateEventHash example_event)
                      example_event example_canonical)) = current initial
   \<and> saved (snd (processTransaction True 0 initial (generateEventHash example_event)
                    example_event example_canonical)) = saved initial"
proof -
  have "\<forall>r \<in> set (raw_events (current initial)). event_hash r \<noteq> generateEventHash example_event"
    by (simp add: initial_def empty_tables_def)
  from processTransaction_simulated[OF this, of 0 example_event example_canonical]
  have f: "fst (processTransaction True 0 initial (generateEventHash example_event) example_event
                  example_canonical) = Inl (Error ''Simulated database failure'')"
    by auto
  from failed_unit_leaves_storage_unchanged[OF f] f show ?thesis by simp
qed


theorem duplicate_returns_stored_outcome_witness:
  "consistent (current (snd (ingestEvent strict_host 5 initial example_event False)))
   \<and> fst (ingestEvent strict_host 9 (snd (ingestEvent strict_host 5 initial example_event False))
            example_event True)
       = Duplicate (generateEventHash example_event) 5 (Some example_canonical)"
proof -
  let ?h = "generateEventHash example_event"
  let ?re = "\<lparr>re_id = 1, event_hash = ?h, raw_data = JSON_stringify example_event,
               received_at = 5\<rparr>"
  obtain r1 d1 where run1: "ingestEvent strict_host 5 initial example_event False = (r1, d1)"
    by (cases "ingestEvent strict_host 5 initial example_event False")
  from ingestEvent_accepts[OF fresh_initial data_example run1]
  have raws: "raw_events (current d1) = [?re]"
    and norms: "normalized_events (current d1)
                  = [\<lparr>client_id = client_id example_canonical, metric = metric example_canonical,
                      amount = amount example_canonical, timestamp = timestamp example_canonical,
                      ne_id = 1, raw_event_id = 1, status = ''processed''\<rparr>]"
    by simp_all
  have c1: "consistent (current d1)"
    using consistent_initial run1 by (rule consistent_ingestEvent)
  have m: "?re \<in> set (raw_events (current d1))" and e: "event_hash ?re = ?h"
    using raws by simp_all
  have "stored_canonical (current d1) ?re = Some example_canonical"
    using norms by (simp add: stored_canonical_def)
  with duplicate_returns_stored_outcome[OF c1 m e, of strict_host 9 True] run1 c1
  show ?thesis by simp
qed

theorem raw_without_normalized_is_duplicate_witness:
  "consistent (current (snd (ingestEvent strict_host 5 initial no_amount_event False)))
   \<and> fst (ingestEvent strict_host 9 (snd (ingestEvent strict_host 5 initial no_amount_event False))
            no_amount_event False)
       = Duplicate (generateEventHash no_amount_event) 5 None
   \<and> normalized_events (current (snd (ingestEvent strict_host 9
          (snd (ingestEvent strict_host 5 initial no_amount_event False)) no_amount_event False)))
       = []"
proof -
  let ?h = "generateEventHash no_amount_event"
  let ?re = "\<lparr>re_id = 1, event_hash = ?h, raw_data = JSON_stringify no_amount_event,
               received_at = 5\<rparr>"
  obtain r1 d1 where run1: "ingestEvent strict_host 5 initial no_amount_event False = (r1, d1)"
    by (cases "ingestEvent strict_host 5 initial no_amount_event False")
  have "amount_missing no_amount_event"
    by (simp add: amount_missing_def no_amount_event_def payload_of_def)
  then have "extractField (payload_of no_amount_event) ''amount'' = JNull"
    by (rule extractField_amount_missing)
  moreover have "no_amount_event \<noteq> JNull" by (simp add: no_amount_event_def)
  ultimately have "\<not> success (normalize_event strict_host 5 no_amount_event)"
    by (simp add: normalize_amount_missing)
  from ingestEvent_rejects[OF fresh_initial this run1]
  have raws: "raw_events (current d1) = [?re]" and norms: "normalized_events (current d1) = []"
    by simp_all
  have c1: "consistent (current d1)"
    using consistent_initial run1 by (rule consistent_ingestEvent)
  have m: "?re \<in> set (raw_events (current d1))" and e: "event_hash ?re = ?h"
    using raws by simp_all
  have n: "\<forall>n \<in> set (normalized_events (current d1)). raw_event_id n \<noteq> re_id ?re"
    using norms by simp
  from raw_without_normalized_is_duplicate[OF c1 m e n, of strict_host 9 False] run1 c1 norms
  show ?thesis by simp
qed


end
